theory Spec2Isabelle
  imports Main "HOL-Library.Multiset"
begin

section \<open>JavaScript strings\<close>

text \<open>
  A JavaScript string is a sequence of UTF-16 code units.  A code unit is modelled by
  its numeric value, a string by the list of its code units.  \<open>js\<close> embeds an Isabelle
  string literal, code unit by code unit.
\<close>

type_synonym jschar = nat
type_synonym jsstring = "jschar list"

abbreviation (input) ch :: "char \<Rightarrow> jschar" where
  "ch c \<equiv> of_char c"

definition js :: "string \<Rightarrow> jsstring" where
  "js s = map of_char s"

abbreviation (input) QUOTE :: jschar where "QUOTE \<equiv> 34"
abbreviation (input) BACKSLASH :: jschar where "BACKSLASH \<equiv> 92"
abbreviation (input) LBRACE :: jschar where "LBRACE \<equiv> 123"
abbreviation (input) RBRACE :: jschar where "RBRACE \<equiv> 125"
abbreviation (input) LBRACKET :: jschar where "LBRACKET \<equiv> 91"
abbreviation (input) RBRACKET :: jschar where "RBRACKET \<equiv> 93"

section \<open>The truncation repair: \<open>fixTruncatedJson\<close>\<close>

text \<open>
  The three local variables of the scan.  \<open>stack\<close> is the JavaScript array: \<open>push\<close>
  appends at the end, \<open>pop\<close> removes the last element, and the top is the last element.
\<close>

record scan_state =
  stack :: "jschar list"
  isInsideString :: bool
  escaped :: bool

definition scan_init :: scan_state where
  "scan_init = \<lparr>stack = [], isInsideString = False, escaped = False\<rparr>"

text \<open>One iteration of the \<open>for\<close> loop, on the character \<open>char\<close>.\<close>

definition scan_step :: "scan_state \<Rightarrow> jschar \<Rightarrow> scan_state" where
  "scan_step s char =
     (let inside = (if char = QUOTE \<and> \<not> escaped s then \<not> isInsideString s
                    else isInsideString s);
          esc = (char = BACKSLASH \<and> \<not> escaped s);
          stk = (if \<not> inside then
                   (if char = LBRACE \<or> char = LBRACKET
                    then stack s @ [if char = LBRACE then RBRACE else RBRACKET]
                    else if char = RBRACE \<or> char = RBRACKET
                    then (if length (stack s) > 0 \<and> last (stack s) = char
                          then butlast (stack s) else stack s)
                    else stack s)
                 else stack s)
      in \<lparr>stack = stk, isInsideString = inside, escaped = esc\<rparr>)"

text \<open>The whole \<open>for\<close> loop: the characters of \<open>json\<close> from left to right.\<close>

definition scan :: "jsstring \<Rightarrow> scan_state" where
  "scan json = foldl scan_step scan_init json"

text \<open>The \<open>while\<close> loop that pops the stack and appends each popped closer.\<close>

function close_all :: "jschar list \<Rightarrow> jsstring \<Rightarrow> jsstring" where
  "close_all stk repaired =
     (if length stk > 0 then close_all (butlast stk) (repaired @ [last stk])
      else repaired)"
  by pat_completeness auto
termination
  by (relation "measure (\<lambda>(stk, repaired). length stk)") auto

declare close_all.simps [simp del]

definition fixTruncatedJson :: "jsstring \<Rightarrow> jsstring" where
  "fixTruncatedJson json =
     (let s = scan json;
          repaired = json;
          repaired = (if isInsideString s then repaired @ [QUOTE] else repaired)
      in close_all (stack s) repaired)"

section \<open>Unmatched openers, by position\<close>

text \<open>
  The specification speaks of the openers of the input that are unmatched when the text is
  read outside string literals.  The definitions of this section follow those words and
  work on positions of the text, not on a stack of closers.

  A quote is unescaped when the run of backslashes right before it has even length.
  A position lies outside string literals when an even number of unescaped quotes
  precede it.
\<close>

definition backslash_run :: "jsstring \<Rightarrow> nat \<Rightarrow> nat" where
  "backslash_run t i = length (takeWhile (\<lambda>c. c = BACKSLASH) (rev (take i t)))"

definition unescaped_quote_at :: "jsstring \<Rightarrow> nat \<Rightarrow> bool" where
  "unescaped_quote_at t i \<longleftrightarrow> t ! i = QUOTE \<and> even (backslash_run t i)"

definition outside_string_at :: "jsstring \<Rightarrow> nat \<Rightarrow> bool" where
  "outside_string_at t i \<longleftrightarrow> even (length (filter (unescaped_quote_at t) [0..<i]))"

definition is_opener :: "jschar \<Rightarrow> bool" where
  "is_opener c \<longleftrightarrow> c = LBRACE \<or> c = LBRACKET"

definition is_closer :: "jschar \<Rightarrow> bool" where
  "is_closer c \<longleftrightarrow> c = RBRACE \<or> c = RBRACKET"

definition closer_of :: "jschar \<Rightarrow> jschar" where
  "closer_of c = (if c = LBRACE then RBRACE else RBRACKET)"

text \<open>
  Matching, over the positions \<open>ps\<close> in order: \<open>opened\<close> holds the positions of the openers
  still open, innermost last.  A closer outside string literals closes the innermost open
  opener when it is of its kind, and is passed over otherwise.
\<close>

fun match_openers :: "jsstring \<Rightarrow> nat list \<Rightarrow> nat list \<Rightarrow> nat list" where
  "match_openers t opened [] = opened"
| "match_openers t opened (i # ps) =
     (if outside_string_at t i \<and> is_opener (t ! i) then match_openers t (opened @ [i]) ps
      else if outside_string_at t i \<and> is_closer (t ! i) \<and> opened \<noteq> []
              \<and> closer_of (t ! last opened) = t ! i
      then match_openers t (butlast opened) ps
      else match_openers t opened ps)"

definition unmatched_openers :: "jsstring \<Rightarrow> nat list" where
  "unmatched_openers t = match_openers t [] [0..<length t]"

section \<open>The normalizer: trimming, fences, trailing commas\<close>

text \<open>
  \<open>String.prototype.trim\<close> and the class \<open>\s\<close> of a regular expression use the same set
  of code units: the white space and the line terminators of ECMAScript.
\<close>

definition is_js_whitespace :: "jschar \<Rightarrow> bool" where
  "is_js_whitespace c \<longleftrightarrow>
     c = 9 \<or> c = 10 \<or> c = 11 \<or> c = 12 \<or> c = 13 \<or> c = 32 \<or> c = 160 \<or> c = 5760
     \<or> (8192 \<le> c \<and> c \<le> 8202) \<or> c = 8232 \<or> c = 8233 \<or> c = 8239 \<or> c = 8287
     \<or> c = 12288 \<or> c = 65279"

definition trim :: "jsstring \<Rightarrow> jsstring" where
  "trim str = rev (dropWhile is_js_whitespace (rev (dropWhile is_js_whitespace str)))"

abbreviation (input) NEWLINE :: jschar where "NEWLINE \<equiv> 10"
abbreviation (input) COMMA :: jschar where "COMMA \<equiv> 44"

definition FENCE :: jsstring where
  "FENCE = [96, 96, 96]"

definition startsWith :: "jsstring \<Rightarrow> jsstring \<Rightarrow> bool" where
  "startsWith s p \<longleftrightarrow> take (length p) s = p"

definition endsWith :: "jsstring \<Rightarrow> jsstring \<Rightarrow> bool" where
  "endsWith s p \<longleftrightarrow> length p \<le> length s \<and> drop (length s - length p) s = p"

text \<open>
  \<open>s.replace(/^```(?:json)?\n?/, '')\<close>: the pattern is anchored at the start of the text
  and every optional part is greedy; when the text does not start with the fence nothing
  matches and \<open>replace\<close> returns the text.
\<close>

definition replace_opening_fence :: "jsstring \<Rightarrow> jsstring" where
  "replace_opening_fence s =
     (if startsWith s FENCE then
        (let r = drop 3 s;
             r = (if startsWith r (js ''json'') then drop 4 r else r);
             r = (if startsWith r [NEWLINE] then drop 1 r else r)
         in r)
      else s)"

text \<open>
  \<open>s.replace(/\n?```$/, '')\<close>: without the flag \<open>m\<close> the \<open>$\<close> is the end of the text, so a
  match is the last four code units when they are a newline and the fence (the leftmost
  match), and the last three when they are the fence.
\<close>

definition replace_closing_fence :: "jsstring \<Rightarrow> jsstring" where
  "replace_closing_fence s =
     (if endsWith s (NEWLINE # FENCE) then take (length s - 4) s
      else if endsWith s FENCE then take (length s - 3) s
      else s)"

text \<open>The \<open>if\<close> statement of \<open>cleanJsonString\<close> around the two fence replacements.\<close>

definition strip_fences :: "jsstring \<Rightarrow> jsstring" where
  "strip_fences cleaned =
     (if startsWith cleaned FENCE
      then replace_closing_fence (replace_opening_fence cleaned)
      else cleaned)"

text \<open>
  \<open>s.replace(/,\s*([\]}])/g, '$1')\<close>: the text is read from left to right; at a comma, the
  white space after it is skipped and, when a closing bracket or brace follows, the whole
  match is replaced by that character and the search goes on after it.  Everything else
  is copied.
\<close>

function remove_trailing_commas :: "jsstring \<Rightarrow> jsstring" where
  "remove_trailing_commas [] = []"
| "remove_trailing_commas (c # cs) =
     (if c = COMMA then
        (case dropWhile is_js_whitespace cs of
           [] \<Rightarrow> c # remove_trailing_commas cs
         | b # rest \<Rightarrow>
             if b = RBRACKET \<or> b = RBRACE then b # remove_trailing_commas rest
             else c # remove_trailing_commas cs)
      else c # remove_trailing_commas cs)"
  by pat_completeness auto
termination
proof (relation "measure length")
  fix c :: jschar and cs x21 x22
  assume "dropWhile is_js_whitespace cs = x21 # x22"
  then have "length (x21 # x22) \<le> length cs"
    using length_dropWhile_le[of is_js_whitespace cs] by simp
  then show "(x22, c # cs) \<in> measure length" by simp
qed simp_all

section \<open>JSON values and \<open>JSON.parse\<close>\<close>

text \<open>
  The values that \<open>JSON.parse\<close> returns.  A number literal is kept as its exact decimal
  value: \<open>JNumber m e\<close> stands for \<open>m \<times> 10\<^sup>e\<close>, and JavaScript holds the double nearest to
  it.  An object is the list of its own properties; a key that occurs again replaces the
  value where the key stands.
\<close>

datatype json =
    JNull
  | JBool bool
  | JNumber int int
  | JString jsstring
  | JArray "json list"
  | JObject "(jsstring \<times> json) list"

datatype token =
    TLBrace | TRBrace | TLBracket | TRBracket | TColon | TComma
  | TString jsstring | TNumber int int | TTrue | TFalse | TNull

abbreviation (input) COLON :: jschar where "COLON \<equiv> 58"
abbreviation (input) MINUS :: jschar where "MINUS \<equiv> 45"
abbreviation (input) PLUS :: jschar where "PLUS \<equiv> 43"
abbreviation (input) DOT :: jschar where "DOT \<equiv> 46"

text \<open>The white space of the JSON grammar: tab, line feed, carriage return, space.\<close>

definition is_json_whitespace :: "jschar \<Rightarrow> bool" where
  "is_json_whitespace c \<longleftrightarrow> c = 9 \<or> c = 10 \<or> c = 13 \<or> c = 32"

definition is_digit :: "jschar \<Rightarrow> bool" where
  "is_digit c \<longleftrightarrow> 48 \<le> c \<and> c \<le> 57"

definition hex_digit :: "jschar \<Rightarrow> nat option" where
  "hex_digit c =
     (if 48 \<le> c \<and> c \<le> 57 then Some (c - 48)
      else if 65 \<le> c \<and> c \<le> 70 then Some (c - 55)
      else if 97 \<le> c \<and> c \<le> 102 then Some (c - 87)
      else None)"

text \<open>The one-character escapes of a JSON string: \<open>\" \\ \/ \b \f \n \r \t\<close>.\<close>

definition escape_char :: "jschar \<Rightarrow> jschar option" where
  "escape_char e =
     (if e = QUOTE then Some QUOTE
      else if e = BACKSLASH then Some BACKSLASH
      else if e = 47 then Some 47
      else if e = ch CHR ''b'' then Some 8
      else if e = ch CHR ''f'' then Some 12
      else if e = ch CHR ''n'' then Some 10
      else if e = ch CHR ''r'' then Some 13
      else if e = ch CHR ''t'' then Some 9
      else None)"

text \<open>
  A string literal, read from the code unit after its opening quote: the value of the
  string and the text after its closing quote.  A code unit below 32 and an unknown or
  incomplete escape are syntax errors, as is the end of the text before the closing quote.
\<close>

fun lex_string :: "jsstring \<Rightarrow> jsstring \<Rightarrow> (jsstring \<times> jsstring) option" where
  "lex_string acc [] = None"
| "lex_string acc (c # cs) =
     (if c = QUOTE then Some (acc, cs)
      else if c = BACKSLASH then
        (case cs of
           [] \<Rightarrow> None
         | e # cs1 \<Rightarrow>
             if e = ch CHR ''u'' then
               (case cs1 of
                  h1 # h2 # h3 # h4 # cs2 \<Rightarrow>
                    (case (hex_digit h1, hex_digit h2, hex_digit h3, hex_digit h4) of
                       (Some d1, Some d2, Some d3, Some d4) \<Rightarrow>
                         lex_string (acc @ [((d1 * 16 + d2) * 16 + d3) * 16 + d4]) cs2
                     | _ \<Rightarrow> None)
                | _ \<Rightarrow> None)
             else
               (case escape_char e of
                  Some x \<Rightarrow> lex_string (acc @ [x]) cs1
                | None \<Rightarrow> None))
      else if c < 32 then None
      else lex_string (acc @ [c]) cs)"

text \<open>
  A number literal: an optional minus sign, the integer part (a single \<open>0\<close>, or digits that
  start with a nonzero digit), an optional fraction (a dot and at least one digit) and an
  optional exponent (\<open>e\<close> or \<open>E\<close>, an optional sign and at least one digit).
\<close>

definition digits_value :: "jsstring \<Rightarrow> nat" where
  "digits_value ds = foldl (\<lambda>a d. 10 * a + (d - 48)) 0 ds"

definition lex_int_part :: "jsstring \<Rightarrow> (jsstring \<times> jsstring) option" where
  "lex_int_part s =
     (case s of
        [] \<Rightarrow> None
      | c # r \<Rightarrow>
          if c = 48 then Some ([c], r)
          else if is_digit c then Some (takeWhile is_digit s, dropWhile is_digit s)
          else None)"

definition lex_frac_part :: "jsstring \<Rightarrow> (jsstring \<times> jsstring) option" where
  "lex_frac_part s =
     (case s of
        [] \<Rightarrow> Some ([], s)
      | c # r \<Rightarrow>
          if c = DOT then
            (if takeWhile is_digit r = [] then None
             else Some (takeWhile is_digit r, dropWhile is_digit r))
          else Some ([], s))"

definition lex_sign :: "jsstring \<Rightarrow> bool \<times> jsstring" where
  "lex_sign s =
     (case s of
        [] \<Rightarrow> (False, s)
      | c # r \<Rightarrow> if c = MINUS then (True, r) else if c = PLUS then (False, r) else (False, s))"

definition lex_exp_part :: "jsstring \<Rightarrow> (int \<times> jsstring) option" where
  "lex_exp_part s =
     (case s of
        [] \<Rightarrow> Some (0, s)
      | c # r \<Rightarrow>
          if c = ch CHR ''e'' \<or> c = ch CHR ''E'' then
            (case lex_sign r of
               (neg, r1) \<Rightarrow>
                 if takeWhile is_digit r1 = [] then None
                 else Some ((if neg then - 1 else 1) * int (digits_value (takeWhile is_digit r1)),
                            dropWhile is_digit r1))
          else Some (0, s))"

definition lex_number :: "jsstring \<Rightarrow> (int \<times> int \<times> jsstring) option" where
  "lex_number s =
     (case (case s of [] \<Rightarrow> (False, s) | c # r \<Rightarrow> if c = MINUS then (True, r) else (False, s)) of
        (neg, s1) \<Rightarrow>
          (case lex_int_part s1 of
             None \<Rightarrow> None
           | Some (ip, s2) \<Rightarrow>
               (case lex_frac_part s2 of
                  None \<Rightarrow> None
                | Some (fp, s3) \<Rightarrow>
                    (case lex_exp_part s3 of
                       None \<Rightarrow> None
                     | Some (ex, s4) \<Rightarrow>
                         Some ((if neg then - 1 else 1) * int (digits_value (ip @ fp)),
                               ex - int (length fp), s4)))))"

text \<open>
  The text as tokens.  A token starts at the first code unit that is not white space;
  any code unit that starts no token is a syntax error (\<open>None\<close>).
\<close>

function tokenize :: "jsstring \<Rightarrow> token list option" where
  "tokenize [] = Some []"
| "tokenize (c # cs) =
     (if is_json_whitespace c then tokenize cs
      else if c = LBRACE then map_option ((#) TLBrace) (tokenize cs)
      else if c = RBRACE then map_option ((#) TRBrace) (tokenize cs)
      else if c = LBRACKET then map_option ((#) TLBracket) (tokenize cs)
      else if c = RBRACKET then map_option ((#) TRBracket) (tokenize cs)
      else if c = COLON then map_option ((#) TColon) (tokenize cs)
      else if c = COMMA then map_option ((#) TComma) (tokenize cs)
      else if c = QUOTE then
        (case lex_string [] cs of
           None \<Rightarrow> None
         | Some (v, rest) \<Rightarrow> map_option ((#) (TString v)) (tokenize rest))
      else if c = MINUS \<or> is_digit c then
        (case lex_number (c # cs) of
           None \<Rightarrow> None
         | Some (m, e, rest) \<Rightarrow> map_option ((#) (TNumber m e)) (tokenize rest))
      else if startsWith (c # cs) (js ''true'') then map_option ((#) TTrue) (tokenize (drop 3 cs))
      else if startsWith (c # cs) (js ''false'') then map_option ((#) TFalse) (tokenize (drop 4 cs))
      else if startsWith (c # cs) (js ''null'') then map_option ((#) TNull) (tokenize (drop 3 cs))
      else None)"
  by pat_completeness auto
termination
proof (relation "measure length")
  show "wf (measure length)" by simp
next
  fix c :: jschar and cs x2 x y
  assume "lex_string [] cs = Some x2" and "(x, y) = x2"
  then have l: "lex_string [] cs = Some (x, y)" by simp
  have "\<And>acc v rest. lex_string acc cs = Some (v, rest) \<Longrightarrow> length rest \<le> length cs"
  proof (induction cs rule: length_induct)
    case (1 xs)
    show ?case
    proof (cases xs)
      case Nil
      then show ?thesis using 1(2) by simp
    next
      case (Cons d ds)
      then show ?thesis
        using 1(2) 1(1)
        by (auto split: if_splits list.splits option.splits
            dest!: spec mp intro: le_SucI)
    qed
  qed
  from this[OF l] show "(y, c # cs) \<in> measure length" by simp
next
  fix c :: jschar and cs x2 x y xa ya
  assume "lex_number (c # cs) = Some x2" and "(x, y) = x2" and "(xa, ya) = y"
  then have l: "lex_number (c # cs) = Some (x, xa, ya)" by auto
  have i: "\<And>s ip r. lex_int_part s = Some (ip, r) \<Longrightarrow> length r < length s"
    using length_dropWhile_le[of is_digit]
    by (auto simp: lex_int_part_def split: list.splits if_splits intro: le_imp_less_Suc)
  have f: "\<And>s fp r. lex_frac_part s = Some (fp, r) \<Longrightarrow> length r \<le> length s"
    using length_dropWhile_le[of is_digit]
    by (auto simp: lex_frac_part_def split: list.splits if_splits intro: le_SucI)
  have e: "\<And>s ex r. lex_exp_part s = Some (ex, r) \<Longrightarrow> length r \<le> length s"
    using length_dropWhile_le[of is_digit]
    by (auto simp: lex_exp_part_def lex_sign_def split: list.splits if_splits prod.splits
        intro: le_SucI order_trans)
  have "length ya < length (c # cs)"
    using l by (auto simp: lex_number_def split: option.splits prod.splits if_splits
        dest!: i f e)
  then show "(ya, c # cs) \<in> measure length" by simp
qed simp_all


text \<open>
  The tokens are read by a pushdown machine.  A frame is an array with the elements read
  so far, an object with the members read so far, or a key whose value is being read
  (always on top of the frame of its object).
\<close>

datatype frame =
    ArrayFrame "json list"
  | ObjectFrame "(jsstring \<times> json) list"
  | KeyFrame jsstring

datatype mode =
    ExpectValue          \<comment> \<open>a value must follow: at the start, after a colon, after a comma in an array\<close>
  | ExpectValueOrClose   \<comment> \<open>right after an opening bracket\<close>
  | ExpectKeyOrClose     \<comment> \<open>right after an opening brace\<close>
  | ExpectKey            \<comment> \<open>after a comma in an object\<close>
  | ExpectColon          \<comment> \<open>after a key\<close>
  | AfterValue           \<comment> \<open>after a value inside an array or an object\<close>
  | Done json            \<comment> \<open>the value of the whole text is complete\<close>

fun set_property :: "(jsstring \<times> json) list \<Rightarrow> jsstring \<Rightarrow> json \<Rightarrow> (jsstring \<times> json) list" where
  "set_property [] k v = [(k, v)]"
| "set_property ((k', v') # ms) k v =
     (if k' = k then (k, v) # ms else (k', v') # set_property ms k v)"

text \<open>A complete value goes to the enclosing array, to the pending key, or is the result.\<close>

fun push_value :: "json \<Rightarrow> frame list \<Rightarrow> (mode \<times> frame list) option" where
  "push_value v [] = Some (Done v, [])"
| "push_value v (ArrayFrame es # st) = Some (AfterValue, ArrayFrame (es @ [v]) # st)"
| "push_value v (KeyFrame k # ObjectFrame ms # st) =
     Some (AfterValue, ObjectFrame (set_property ms k v) # st)"
| "push_value v _ = None"

fun begin_value :: "token \<Rightarrow> frame list \<Rightarrow> (mode \<times> frame list) option" where
  "begin_value TNull st = push_value JNull st"
| "begin_value TTrue st = push_value (JBool True) st"
| "begin_value TFalse st = push_value (JBool False) st"
| "begin_value (TNumber m e) st = push_value (JNumber m e) st"
| "begin_value (TString v) st = push_value (JString v) st"
| "begin_value TLBracket st = Some (ExpectValueOrClose, ArrayFrame [] # st)"
| "begin_value TLBrace st = Some (ExpectKeyOrClose, ObjectFrame [] # st)"
| "begin_value _ st = None"

fun close_array :: "frame list \<Rightarrow> (mode \<times> frame list) option" where
  "close_array (ArrayFrame es # st) = push_value (JArray es) st"
| "close_array _ = None"

fun close_object :: "frame list \<Rightarrow> (mode \<times> frame list) option" where
  "close_object (ObjectFrame ms # st) = push_value (JObject ms) st"
| "close_object _ = None"

fun parse_step :: "mode \<times> frame list \<Rightarrow> token \<Rightarrow> (mode \<times> frame list) option" where
  "parse_step (ExpectValue, st) t = begin_value t st"
| "parse_step (ExpectValueOrClose, st) t =
     (if t = TRBracket then close_array st else begin_value t st)"
| "parse_step (ExpectKeyOrClose, st) t =
     (case t of
        TString k \<Rightarrow> Some (ExpectColon, KeyFrame k # st)
      | TRBrace \<Rightarrow> close_object st
      | _ \<Rightarrow> None)"
| "parse_step (ExpectKey, st) t =
     (case t of
        TString k \<Rightarrow> Some (ExpectColon, KeyFrame k # st)
      | _ \<Rightarrow> None)"
| "parse_step (ExpectColon, st) t =
     (if t = TColon then Some (ExpectValue, st) else None)"
| "parse_step (AfterValue, st) t =
     (case t of
        TComma \<Rightarrow>
          (case st of
             ArrayFrame es # st' \<Rightarrow> Some (ExpectValue, st)
           | ObjectFrame ms # st' \<Rightarrow> Some (ExpectKey, st)
           | _ \<Rightarrow> None)
      | TRBracket \<Rightarrow> close_array st
      | TRBrace \<Rightarrow> close_object st
      | _ \<Rightarrow> None)"
| "parse_step (Done v, st) t = None"

fun parse_tokens :: "mode \<times> frame list \<Rightarrow> token list \<Rightarrow> (mode \<times> frame list) option" where
  "parse_tokens p [] = Some p"
| "parse_tokens p (t # ts) =
     (case parse_step p t of None \<Rightarrow> None | Some p' \<Rightarrow> parse_tokens p' ts)"

text \<open>
  \<open>JSON.parse(text)\<close>: \<open>None\<close> stands for the \<open>SyntaxError\<close> it throws.
\<close>

definition JSON_parse :: "jsstring \<Rightarrow> json option" where
  "JSON_parse text =
     (case tokenize text of
        None \<Rightarrow> None
      | Some ts \<Rightarrow>
          (case parse_tokens (ExpectValue, []) ts of
             Some (Done v, st) \<Rightarrow> Some v
           | _ \<Rightarrow> None))"

section \<open>\<open>cleanJsonString\<close>\<close>

definition cleanJsonString :: "jsstring \<Rightarrow> jsstring" where
  "cleanJsonString str =
     (let cleaned = trim str;
          cleaned = strip_fences cleaned;
          cleaned = remove_trailing_commas cleaned
      in case JSON_parse cleaned of
           Some v \<Rightarrow> cleaned
         | None \<Rightarrow> fixTruncatedJson cleaned)"

section \<open>Validation and sorting of the draws\<close>

text \<open>
  \<open>ToBoolean\<close>.  The double nearest to \<open>m \<times> 10\<^sup>e\<close> is zero exactly when \<open>m\<close> is zero or
  the magnitude of the value is at most \<open>2\<^sup>-\<^sup>1\<^sup>0\<^sup>7\<^sup>5\<close>, half of the least positive double
  (rounding to nearest, ties to even).
\<close>

definition number_is_zero :: "int \<Rightarrow> int \<Rightarrow> bool" where
  "number_is_zero m e \<longleftrightarrow> m = 0 \<or> (e < 0 \<and> \<bar>m\<bar> * 2 ^ 1075 \<le> 10 ^ nat (- e))"

fun truthy :: "json \<Rightarrow> bool" where
  "truthy JNull = False"
| "truthy (JBool b) = b"
| "truthy (JNumber m e) = (\<not> number_is_zero m e)"
| "truthy (JString s) = (s \<noteq> [])"
| "truthy (JArray es) = True"
| "truthy (JObject ms) = True"

text \<open>The result of a property read is a value or \<open>undefined\<close> (\<open>None\<close>), which is falsy.\<close>

fun to_boolean :: "json option \<Rightarrow> bool" where
  "to_boolean None = False"
| "to_boolean (Some v) = truthy v"

text \<open>
  \<open>v.k\<close> for a value \<open>v\<close> other than \<open>null\<close> and a name \<open>k\<close> among \<open>draws\<close>, \<open>game\<close>, \<open>date\<close>
  and \<open>numbers\<close>: no prototype has a property of these names, so the read gives the own
  property of an object and \<open>undefined\<close> in every other case.
\<close>

fun get_property :: "json \<Rightarrow> jsstring \<Rightarrow> json option" where
  "get_property (JObject ms) k = map_of ms k"
| "get_property v k = None"

fun isArray :: "json option \<Rightarrow> bool" where
  "isArray (Some (JArray es)) = True"
| "isArray v = False"

text \<open>The callback of \<open>filter\<close>: \<open>d && d.game && d.date && Array.isArray(d.numbers)\<close>.\<close>

definition is_valid_draw :: "json \<Rightarrow> bool" where
  "is_valid_draw d \<longleftrightarrow>
     truthy d \<and> to_boolean (get_property d (js ''game''))
       \<and> to_boolean (get_property d (js ''date''))
       \<and> isArray (get_property d (js ''numbers''))"

text \<open>
  \<open>new Date(v).getTime()\<close> is a parameter of the model: a function that gives, for the
  value of a \<open>date\<close> property, a time value in milliseconds (an integer), \<open>NaN\<close> when the
  value is no date, or throws (\<open>None\<close>).
\<close>

datatype js_number = NaN | Finite int

type_synonym date_getTime = "json option \<Rightarrow> js_number option"

fun number_minus :: "js_number \<Rightarrow> js_number \<Rightarrow> js_number" where
  "number_minus (Finite x) (Finite y) = Finite (x - y)"
| "number_minus x y = NaN"

text \<open>
  The comparator \<open>(a, b) => new Date(b.date).getTime() - new Date(a.date).getTime()\<close>;
  the left operand is evaluated first.
\<close>

definition compare_draws :: "date_getTime \<Rightarrow> json \<Rightarrow> json \<Rightarrow> js_number option" where
  "compare_draws getTime a b =
     (case getTime (get_property b (js ''date'')) of
        None \<Rightarrow> None
      | Some tb \<Rightarrow>
          (case getTime (get_property a (js ''date'')) of
             None \<Rightarrow> None
           | Some ta \<Rightarrow> Some (number_minus tb ta)))"

text \<open>
  \<open>Array.prototype.sort\<close> reads the result of the comparator through \<open>SortCompare\<close>: a
  result \<open>NaN\<close> counts as \<open>0\<close>.
\<close>

definition SortCompare :: "(json \<Rightarrow> json \<Rightarrow> js_number option) \<Rightarrow> json \<Rightarrow> json \<Rightarrow> int option" where
  "SortCompare comparefn x y =
     (case comparefn x y of
        None \<Rightarrow> None
      | Some NaN \<Rightarrow> Some 0
      | Some (Finite v) \<Rightarrow> Some v)"

text \<open>
  \<open>Array.prototype.sort\<close>.  ECMAScript leaves the sequence of calls of the comparator to
  the implementation and fixes the result for a consistent comparator: the elements in
  ascending order of the comparator, equal elements in their original order.  The model
  is the stable insertion sort; an exception of the comparator ends the sort (\<open>None\<close>).
  When the comparator is not consistent (a result \<open>NaN\<close> among three or more elements
  with different time values) the order is implementation-defined, and the order of an
  engine need not be the order of the model.  The statements below read the order of the
  output only where the comparator is consistent (all dates are time values, or the list
  has at most two elements); elsewhere they read only which elements the output has.
\<close>

fun insert_sorted :: "(json \<Rightarrow> json \<Rightarrow> int option) \<Rightarrow> json \<Rightarrow> json list \<Rightarrow> json list option" where
  "insert_sorted cmp x [] = Some [x]"
| "insert_sorted cmp x (y # ys) =
     (case cmp x y of
        None \<Rightarrow> None
      | Some v \<Rightarrow> if v \<le> 0 then Some (x # y # ys)
                  else map_option ((#) y) (insert_sorted cmp x ys))"

fun array_sort :: "(json \<Rightarrow> json \<Rightarrow> int option) \<Rightarrow> json list \<Rightarrow> json list option" where
  "array_sort cmp [] = Some []"
| "array_sort cmp (x # xs) =
     (case array_sort cmp xs of
        None \<Rightarrow> None
      | Some ys \<Rightarrow> insert_sorted cmp x ys)"

section \<open>\<open>generateLotteryData\<close>\<close>

record source =
  uri :: jsstring
  title :: jsstring

record grounding_chunk =
  web :: "source option"

text \<open>
  What the function reads of the response: \<open>response.text\<close> and
  \<open>response.candidates?.[0]?.groundingMetadata?.groundingChunks\<close>, each possibly
  \<open>undefined\<close>.  The awaited call resolves with a response or rejects with an error, of
  which the function reads \<open>error.message\<close>.
\<close>

record response =
  response_text :: "jsstring option"
  groundingChunks :: "grounding_chunk list option"

datatype outcome = Resolved response | Rejected "jsstring option"

record environment =
  API_KEY :: "jsstring option"
  generateContent :: "jsstring \<Rightarrow> outcome"
  Date_getTime :: date_getTime

record ScrapedResult =
  draws :: "json list"
  sources :: "source list"
  errorDetail :: "jsstring option"

fun string_includes :: "jsstring \<Rightarrow> jsstring \<Rightarrow> bool" where
  "string_includes [] sub = (sub = [])"
| "string_includes (c # cs) sub = (startsWith (c # cs) sub \<or> string_includes cs sub)"

definition prompt :: "jsstring \<Rightarrow> jsstring \<Rightarrow> jsstring" where
  \<open>prompt startDate endDate =
     js ''Return ONLY a JSON object for SA Lotto results ('' @ startDate @ js '' to ''
       @ endDate @ js '').'' @ [NEWLINE]
     @ js ''  Sources: nationallottery.co.za, za.national-lottery.com.'' @ [NEWLINE]
     @ js ''  Schema: {"draws": [{"id":string,"game":string,"date":"YYYY-MM-DD","numbers":[int],"bonusBall":int,"powerBall":int,"jackpotAmount":number}]}'' @ [NEWLINE]
     @ js ''  Games: Daily Lotto, Daily Lotto Plus, Lotto, Lotto Plus 1, Lotto Plus 2, PowerBall, PowerBall Plus.'' @ [NEWLINE]
     @ js ''  Limit: Max 40 most recent draws to ensure completion.''\<close>

definition interrupted :: "source list \<Rightarrow> ScrapedResult" where
  "interrupted srcs =
     \<lparr>draws = [], sources = srcs,
      errorDetail = Some (js ''Data stream was interrupted. Try a smaller date range.'')\<rparr>"

text \<open>
  The body of the inner \<open>try\<close>, after \<open>JSON.parse\<close> has returned \<open>data\<close>.  Reading
  \<open>data.draws\<close> throws a \<open>TypeError\<close> when \<open>data\<close> is \<open>null\<close>, and so does a comparator
  call of the sort that throws; the inner \<open>catch\<close> turns both into the result
  \<open>interrupted\<close>.
\<close>

definition process_data :: "date_getTime \<Rightarrow> source list \<Rightarrow> json \<Rightarrow> ScrapedResult" where
  "process_data getTime srcs data =
     (if data = JNull then interrupted srcs
      else
        (case get_property data (js ''draws'') of
           Some (JArray ds) \<Rightarrow>
             (let validDraws = filter is_valid_draw ds
              in case array_sort (SortCompare (compare_draws getTime)) validDraws of
                   None \<Rightarrow> interrupted srcs
                 | Some sortedDraws \<Rightarrow>
                     \<lparr>draws = sortedDraws, sources = srcs, errorDetail = None\<rparr>)
         | _ \<Rightarrow> \<lparr>draws = [], sources = srcs, errorDetail = None\<rparr>))"

definition generateLotteryData :: "environment \<Rightarrow> jsstring \<Rightarrow> jsstring \<Rightarrow> ScrapedResult" where
  \<open>generateLotteryData env startDate endDate =
     (if API_KEY env = None \<or> API_KEY env = Some [] then
        \<lparr>draws = [], sources = [], errorDetail = Some (js ''API Key is missing.'')\<rparr>
      else
        (case generateContent env (prompt startDate endDate) of
           Rejected message \<Rightarrow>
             \<lparr>draws = [], sources = [],
              errorDetail = Some
                (if (case message of None \<Rightarrow> False | Some m \<Rightarrow> string_includes m (js ''429''))
                 then js ''Too many requests. Slow down.''
                 else js ''Connection failed.'')\<rparr>
         | Resolved response \<Rightarrow>
             (let srcs = (case groundingChunks response of
                            None \<Rightarrow> []
                          | Some chunks \<Rightarrow> List.map_filter web chunks);
                  rawText = (case response_text response of
                               None \<Rightarrow> js ''{"draws": []}''
                             | Some t \<Rightarrow> if t = [] then js ''{"draws": []}'' else t);
                  cleanedText = cleanJsonString rawText
              in case JSON_parse cleanedText of
                   None \<Rightarrow> interrupted srcs
                 | Some data \<Rightarrow> process_data (Date_getTime env) srcs data)))\<close>

section \<open>An instance of \<open>Date\<close> for the date-only form\<close>

text \<open>
  For the examples: the time value of the date-only form \<open>YYYY-MM-DD\<close> of ECMAScript's
  date-time string format (midnight UTC of that day of the proleptic Gregorian
  calendar, in milliseconds since 1970-01-01).  This instance gives \<open>NaN\<close> for every
  other value, also for a day beyond the length of its month, and never throws; an
  engine reads more forms than this one and may read such a day as a later date.  The
  examples apply it to the dates 2026-01-01, 2026-01-20, 2026-02-01 and 2026-02-15 and
  to the string \<open>soon\<close>, which is no date.
  The general statements hold for every function in the place of \<open>Date\<close>.
\<close>

definition days_from_civil :: "int \<Rightarrow> int \<Rightarrow> int \<Rightarrow> int" where
  "days_from_civil y m d =
     (let y' = (if m \<le> 2 then y - 1 else y);
          era = y' div 400;
          yoe = y' - era * 400;
          mp = (m + 9) mod 12;
          doy = (153 * mp + 2) div 5 + d - 1;
          doe = yoe * 365 + yoe div 4 - yoe div 100 + doy
      in era * 146097 + doe - 719468)"

definition days_in_month :: "int \<Rightarrow> int \<Rightarrow> int" where
  "days_in_month y m =
     (if m = 2 then (if y mod 4 = 0 \<and> (y mod 100 \<noteq> 0 \<or> y mod 400 = 0) then 29 else 28)
      else if m = 4 \<or> m = 6 \<or> m = 9 \<or> m = 11 then 30
      else 31)"

definition date_only_getTime :: date_getTime where
  "date_only_getTime v =
     (case v of
        Some (JString [y1, y2, y3, y4, s1, m1, m2, s2, d1, d2]) \<Rightarrow>
          (if s1 = MINUS \<and> s2 = MINUS \<and> list_all is_digit [y1, y2, y3, y4, m1, m2, d1, d2] then
             (let y = int (digits_value [y1, y2, y3, y4]);
                  m = int (digits_value [m1, m2]);
                  d = int (digits_value [d1, d2])
              in if 1 \<le> m \<and> m \<le> 12 \<and> 1 \<le> d \<and> d \<le> days_in_month y m
                 then Some (Finite (days_from_civil y m d * 86400000))
                 else Some NaN)
           else Some NaN)
      | _ \<Rightarrow> Some NaN)"

text \<open>A record of the game Lotto with the given \<open>date\<close> and no numbers, for the examples.\<close>

definition lotto_draw :: "string \<Rightarrow> json" where
  "lotto_draw d = JObject [(js ''game'', JString (js ''Lotto'')), (js ''date'', JString (js d)),
     (js ''numbers'', JArray [])]"

section \<open>Tokens and frames seen by the scan\<close>

text \<open>
  Notions for the comparison of \<open>JSON.parse\<close> with the scan of the repair: what a token
  does to the stack of the scan, the stack of closers that corresponds to the frames of
  the parser, the states of the scan outside_state and inside_state a string literal with the flag
  \<open>escaped\<close> unset, and the code units that leave the state outside_state a string as it is.
\<close>

fun token_stack :: "jschar list \<Rightarrow> token \<Rightarrow> jschar list" where
  "token_stack stk TLBrace = stk @ [RBRACE]"
| "token_stack stk TLBracket = stk @ [RBRACKET]"
| "token_stack stk TRBrace = (if stk \<noteq> [] \<and> last stk = RBRACE then butlast stk else stk)"
| "token_stack stk TRBracket = (if stk \<noteq> [] \<and> last stk = RBRACKET then butlast stk else stk)"
| "token_stack stk t = stk"

fun frames_stack :: "frame list \<Rightarrow> jschar list" where
  "frames_stack [] = []"
| "frames_stack (ArrayFrame es # st) = frames_stack st @ [RBRACKET]"
| "frames_stack (ObjectFrame ms # st) = frames_stack st @ [RBRACE]"
| "frames_stack (KeyFrame k # st) = frames_stack st"

definition outside_state :: "jschar list \<Rightarrow> scan_state" where
  "outside_state stk = \<lparr>stack = stk, isInsideString = False, escaped = False\<rparr>"

definition inside_state :: "jschar list \<Rightarrow> scan_state" where
  "inside_state stk = \<lparr>stack = stk, isInsideString = True, escaped = False\<rparr>"

definition plain :: "jschar \<Rightarrow> bool" where
  "plain c \<longleftrightarrow> c \<noteq> QUOTE \<and> c \<noteq> BACKSLASH \<and> c \<noteq> LBRACE \<and> c \<noteq> RBRACE
     \<and> c \<noteq> LBRACKET \<and> c \<noteq> RBRACKET"


definition skips_plain :: "jsstring \<Rightarrow> jsstring \<Rightarrow> bool" where
  "skips_plain s r \<longleftrightarrow> (\<exists>p. s = p @ r \<and> (\<forall>c\<in>set p. plain c))"


section \<open>Properties of the repair\<close>

lemma close_all_eq: "close_all stk repaired = repaired @ rev stk"
proof (induction stk arbitrary: repaired rule: rev_induct)
  case Nil
  show ?case by (subst close_all.simps) simp
next
  case (snoc x xs)
  have "close_all (xs @ [x]) repaired = close_all xs (repaired @ [x])"
    by (subst close_all.simps) simp
  then show ?case using snoc by simp
qed

lemma scan_snoc: "scan (xs @ [c]) = scan_step (scan xs) c"
  by (simp add: scan_def)

lemma backslash_run_Suc:
  "n < length t \<Longrightarrow> backslash_run t (Suc n) = (if t ! n = BACKSLASH then Suc (backslash_run t n) else 0)"
  by (simp add: backslash_run_def take_Suc_conv_app_nth)

lemma outside_string_at_Suc:
  "outside_string_at t (Suc n) = (if unescaped_quote_at t n then \<not> outside_string_at t n else outside_string_at t n)"
  by (simp add: outside_string_at_def)

lemma match_openers_append:
  "match_openers t opened (ps @ qs) = match_openers t (match_openers t opened ps) qs"
  by (induction ps arbitrary: opened) simp_all

lemma scan_take:
  "n \<le> length t \<Longrightarrow>
     isInsideString (scan (take n t)) = (\<not> outside_string_at t n) \<and>
     escaped (scan (take n t)) = odd (backslash_run t n) \<and>
     stack (scan (take n t)) = map (\<lambda>i. closer_of (t ! i)) (match_openers t [] [0..<n])"
proof (induction n)
  case 0
  show ?case by (simp add: scan_def scan_init_def outside_string_at_def backslash_run_def)
next
  case (Suc n)
  then have lt: "n < length t" and IH:
    "isInsideString (scan (take n t)) = (\<not> outside_string_at t n)"
    "escaped (scan (take n t)) = odd (backslash_run t n)"
    "stack (scan (take n t)) = map (\<lambda>i. closer_of (t ! i)) (match_openers t [] [0..<n])"
    by simp_all
  have tk: "scan (take (Suc n) t) = scan_step (scan (take n t)) (t ! n)"
    using lt by (simp add: take_Suc_conv_app_nth scan_snoc)
  have a: "isInsideString (scan (take (Suc n) t)) = (\<not> outside_string_at t (Suc n))"
    unfolding tk outside_string_at_Suc
    by (simp add: scan_step_def Let_def IH unescaped_quote_at_def)
  have b: "escaped (scan (take (Suc n) t)) = odd (backslash_run t (Suc n))"
    unfolding tk using lt by (simp add: scan_step_def Let_def IH backslash_run_Suc)
  have c: "stack (scan (take (Suc n) t)) = map (\<lambda>i. closer_of (t ! i)) (match_openers t [] [0..<Suc n])"
    unfolding tk
    by (simp add: scan_step_def Let_def IH match_openers_append is_opener_def is_closer_def
        closer_of_def last_map map_butlast)
  from a b c show ?case by simp
qed

lemma match_openers_subset:
  "set (match_openers t opened ps) \<subseteq> set opened \<union> set ps"
proof (induction ps arbitrary: opened)
  case Nil
  show ?case by simp
next
  case (Cons p ps)
  have a: "set (match_openers t (opened @ [p]) ps) \<subseteq> set opened \<union> set (p # ps)"
    using Cons.IH[of "opened @ [p]"] by auto
  have b: "set (match_openers t (butlast opened) ps) \<subseteq> set opened \<union> set (p # ps)"
    using Cons.IH[of "butlast opened"] by (auto dest: in_set_butlastD)
  have c: "set (match_openers t opened ps) \<subseteq> set opened \<union> set (p # ps)"
    using Cons.IH[of opened] by auto
  show ?case using a b c by simp
qed

lemma match_openers_outside:
  "(\<forall>i\<in>set opened. outside_string_at t i \<and> is_opener (t ! i)) \<Longrightarrow>
   (\<forall>i\<in>set (match_openers t opened ps). outside_string_at t i \<and> is_opener (t ! i))"
proof (induction ps arbitrary: opened)
  case Nil
  then show ?case by simp
next
  case (Cons p ps)
  have b: "\<forall>i\<in>set (butlast opened). outside_string_at t i \<and> is_opener (t ! i)"
    using Cons.prems by (auto dest: in_set_butlastD)
  show ?case
  proof (cases "outside_string_at t p \<and> is_opener (t ! p)")
    case True
    then have "\<forall>i\<in>set (opened @ [p]). outside_string_at t i \<and> is_opener (t ! i)"
      using Cons.prems by simp
    from Cons.IH[OF this] True show ?thesis by simp
  next
    case False
    with Cons.IH[OF b] Cons.IH[OF Cons.prems] show ?thesis
      by auto
  qed
qed

lemma sorted_wrt_less_butlast_append:
  "sorted_wrt (<) (xs @ ys) \<Longrightarrow> sorted_wrt (<) (butlast xs @ (ys :: nat list))"
proof (cases "xs = []")
  case True
  assume "sorted_wrt (<) (xs @ ys)"
  then show ?thesis using True by simp
next
  case False
  assume s: "sorted_wrt (<) (xs @ ys)"
  from False have "xs = butlast xs @ [last xs]" by simp
  then have "sorted_wrt (<) ((butlast xs @ [last xs]) @ ys)" using s by simp
  then show ?thesis by (simp add: sorted_wrt_append)
qed

lemma match_openers_sorted:
  "sorted_wrt (<) (opened @ ps) \<Longrightarrow> sorted_wrt (<) (match_openers t opened ps)"
proof (induction ps arbitrary: opened)
  case Nil
  then show ?case by simp
next
  case (Cons p ps)
  have s1: "sorted_wrt (<) ((opened @ [p]) @ ps)"
    using Cons.prems by simp
  have s2: "sorted_wrt (<) (opened @ ps)"
    using Cons.prems by (simp add: sorted_wrt_append)
  have s3: "sorted_wrt (<) (butlast opened @ ps)"
    using s2 by (rule sorted_wrt_less_butlast_append)
  show ?case
    using Cons.IH[OF s1] Cons.IH[OF s2] Cons.IH[OF s3] by simp
qed

lemma scan_whole:
  "isInsideString (scan t) = (\<not> outside_string_at t (length t))"
  "stack (scan t) = map (\<lambda>i. closer_of (t ! i)) (unmatched_openers t)"
  using scan_take[of "length t" t] by (simp_all add: unmatched_openers_def)

text \<open>
  Claim C1.  The repair returns the input, then one quote when the input ends inside a
  string literal, then one closer for each opener that is unmatched outside string
  literals: as many closers as unmatched openers, and the closers, read from left to
  right, are those of the unmatched openers taken from the last one to the first one.
  The unmatched openers are listed in order of appearance (strictly increasing
  positions of the input, each holding an opener outside string literals).
\<close>

theorem fixTruncatedJson_closes_unmatched:
  "fixTruncatedJson t =
      t @ (if outside_string_at t (length t) then [] else [QUOTE])
        @ map (\<lambda>i. closer_of (t ! i)) (rev (unmatched_openers t))
   \<and> length (fixTruncatedJson t) =
      length t + (if outside_string_at t (length t) then 0 else 1)
        + length (unmatched_openers t)
   \<and> sorted_wrt (<) (unmatched_openers t)
   \<and> (\<forall>i\<in>set (unmatched_openers t).
         i < length t \<and> outside_string_at t i \<and> is_opener (t ! i))"
proof -
  have eq: "fixTruncatedJson t =
      t @ (if outside_string_at t (length t) then [] else [QUOTE])
        @ map (\<lambda>i. closer_of (t ! i)) (rev (unmatched_openers t))"
    by (simp add: fixTruncatedJson_def Let_def close_all_eq scan_whole rev_map)
  have len: "length (fixTruncatedJson t) =
      length t + (if outside_string_at t (length t) then 0 else 1)
        + length (unmatched_openers t)"
    by (simp add: eq)
  have srt: "sorted_wrt (<) (unmatched_openers t)"
    unfolding unmatched_openers_def by (rule match_openers_sorted) simp
  have "set (unmatched_openers t) \<subseteq> set [0..<length t]"
    unfolding unmatched_openers_def
    using match_openers_subset[of t "[]" "[0..<length t]"] by simp
  then have bnd: "\<forall>i\<in>set (unmatched_openers t). i < length t"
    by auto
  have out: "\<forall>i\<in>set (unmatched_openers t). outside_string_at t i \<and> is_opener (t ! i)"
    unfolding unmatched_openers_def by (rule match_openers_outside) simp
  from eq len srt bnd out show ?thesis by simp
qed

theorem fixTruncatedJson_closes_unmatched_witness:
  \<open>unmatched_openers (js ''{"a": [1, {"b": "x]'') = [0, 6, 10]
   \<and> fixTruncatedJson (js ''{"a": [1, {"b": "x]'') = js ''{"a": [1, {"b": "x]"}]}''\<close>
proof -
  have u: \<open>unmatched_openers (js ''{"a": [1, {"b": "x]'') = [0, 6, 10]\<close>
    by code_simp
  have o: \<open>\<not> outside_string_at (js ''{"a": [1, {"b": "x]'') 19\<close>
    by code_simp
  have l: \<open>length (js ''{"a": [1, {"b": "x]'') = 19\<close>
    by (simp add: js_def)
  have \<open>fixTruncatedJson (js ''{"a": [1, {"b": "x]'') =
      js ''{"a": [1, {"b": "x]'' @ [QUOTE]
        @ map (\<lambda>i. closer_of (js ''{"a": [1, {"b": "x]'' ! i)) (rev [0, 6, 10])\<close>
    using fixTruncatedJson_closes_unmatched[of \<open>js ''{"a": [1, {"b": "x]''\<close>] o
    unfolding u l by simp
  then show ?thesis
    using u by (simp add: js_def closer_of_def)
qed

text \<open>
  Claim C3.  After a character the flag \<open>escaped\<close> holds exactly when the character is
  a backslash and the flag did not hold before it.  So, after any text that leaves the
  flag unset, a quote that follows two backslashes toggles the in-string state and a
  quote that follows one backslash does not.  In the text \<open>"a\\"\<close> (quote, a, backslash,
  backslash, quote) the scan is inside the string before the last quote and outside
  after it, and the repair leaves that text as it is.
\<close>

theorem escape_tracking:
  \<open>escaped (scan_step s c) = (c = BACKSLASH \<and> \<not> escaped s)
   \<and> (\<not> escaped (scan p) \<longrightarrow>
        isInsideString (scan (p @ [BACKSLASH, BACKSLASH, QUOTE])) = (\<not> isInsideString (scan p)))
   \<and> (\<not> escaped (scan p) \<longrightarrow>
        isInsideString (scan (p @ [BACKSLASH, QUOTE])) = isInsideString (scan p))
   \<and> isInsideString (scan (js ''"a'' @ [BACKSLASH, BACKSLASH]))
   \<and> \<not> isInsideString (scan (js ''"a'' @ [BACKSLASH, BACKSLASH, QUOTE]))
   \<and> fixTruncatedJson (js ''"a'' @ [BACKSLASH, BACKSLASH, QUOTE])
        = js ''"a'' @ [BACKSLASH, BACKSLASH, QUOTE]\<close>
proof -
  have a: "escaped (scan_step s c) = (c = BACKSLASH \<and> \<not> escaped s)"
    by (simp add: scan_step_def Let_def)
  have b: "\<not> escaped (scan p) \<longrightarrow>
        isInsideString (scan (p @ [BACKSLASH, BACKSLASH, QUOTE])) = (\<not> isInsideString (scan p))"
    by (simp add: scan_def scan_step_def Let_def)
  have c: "\<not> escaped (scan p) \<longrightarrow>
        isInsideString (scan (p @ [BACKSLASH, QUOTE])) = isInsideString (scan p)"
    by (simp add: scan_def scan_step_def Let_def)
  have d: \<open>isInsideString (scan (js ''"a'' @ [BACKSLASH, BACKSLASH]))\<close>
    by code_simp
  have e: \<open>\<not> isInsideString (scan (js ''"a'' @ [BACKSLASH, BACKSLASH, QUOTE]))\<close>
    by code_simp
  have f: \<open>fixTruncatedJson (js ''"a'' @ [BACKSLASH, BACKSLASH, QUOTE])
        = js ''"a'' @ [BACKSLASH, BACKSLASH, QUOTE]\<close>
    by code_simp
  from a b c d e f show ?thesis by blast
qed

theorem escape_tracking_witness:
  \<open>\<not> escaped (scan (js ''"a''))
   \<and> \<not> isInsideString (scan (js ''"a'' @ [BACKSLASH, BACKSLASH, QUOTE]))
   \<and> isInsideString (scan (js ''"a'' @ [BACKSLASH, QUOTE]))\<close>
proof -
  have h: \<open>\<not> escaped (scan (js ''"a''))\<close>
    by code_simp
  have i: \<open>isInsideString (scan (js ''"a''))\<close>
    by code_simp
  show ?thesis
    using h i escape_tracking[of scan_init BACKSLASH \<open>js ''"a''\<close>] by simp
qed

section \<open>Properties of the normalizer\<close>

lemma dropWhile_ws_append_comma:
  "ys = COMMA # zs \<Longrightarrow> dropWhile is_js_whitespace (cs @ ys) =
     (case dropWhile is_js_whitespace cs of [] \<Rightarrow> ys | b # rest \<Rightarrow> b # rest @ ys)"
  by (induction cs) (simp_all add: is_js_whitespace_def)

lemma remove_trailing_commas_split_aux:
  "ys = COMMA # zs \<Longrightarrow>
   remove_trailing_commas (xs @ ys) = remove_trailing_commas xs @ remove_trailing_commas ys"
proof (induction xs rule: remove_trailing_commas.induct)
  case 1
  show ?case by simp
next
  case (2 c cs)
  note ys = \<open>ys = COMMA # zs\<close>
  show ?case
  proof (cases "c = COMMA")
    case False
    then show ?thesis using "2.IH"(4)[OF _ ys] by simp
  next
    case True
    show ?thesis
    proof (cases "dropWhile is_js_whitespace cs")
      case Nil
      have d: "dropWhile is_js_whitespace (cs @ ys) = ys"
        by (simp only: dropWhile_ws_append_comma[OF ys] Nil list.case)
      have "remove_trailing_commas ((c # cs) @ ys) = c # remove_trailing_commas (cs @ ys)"
        by (simp add: True d; simp add: ys)
      also have "\<dots> = c # remove_trailing_commas cs @ remove_trailing_commas ys"
        using "2.IH"(1)[OF True Nil ys] by simp
      also have "\<dots> = remove_trailing_commas (c # cs) @ remove_trailing_commas ys"
        by (simp add: True Nil)
      finally show ?thesis .
    next
      case (Cons b rest)
      have d: "dropWhile is_js_whitespace (cs @ ys) = b # rest @ ys"
        by (simp only: dropWhile_ws_append_comma[OF ys] Cons list.case)
      show ?thesis
      proof (cases "b = RBRACKET \<or> b = RBRACE")
        case b: True
        have "remove_trailing_commas ((c # cs) @ ys) = b # remove_trailing_commas (rest @ ys)"
          by (simp add: True d b)
        also have "\<dots> = b # remove_trailing_commas rest @ remove_trailing_commas ys"
          using "2.IH"(2)[OF True Cons b ys] by simp
        also have "\<dots> = remove_trailing_commas (c # cs) @ remove_trailing_commas ys"
          by (simp add: True Cons b)
        finally show ?thesis .
      next
        case b: False
        have "remove_trailing_commas ((c # cs) @ ys) = c # remove_trailing_commas (cs @ ys)"
          by (simp add: True d b)
        also have "\<dots> = c # remove_trailing_commas cs @ remove_trailing_commas ys"
          using "2.IH"(3)[OF True Cons b ys] by simp
        also have "\<dots> = remove_trailing_commas (c # cs) @ remove_trailing_commas ys"
          by (simp add: True Cons b)
        finally show ?thesis .
      qed
    qed
  qed
qed

lemma remove_trailing_commas_split:
  "remove_trailing_commas (xs @ COMMA # zs) =
     remove_trailing_commas xs @ remove_trailing_commas (COMMA # zs)"
  by (rule remove_trailing_commas_split_aux) simp

lemma dropWhile_ws_skip:
  "\<forall>c\<in>set ws. is_js_whitespace c \<Longrightarrow> \<not> is_js_whitespace b \<Longrightarrow>
   dropWhile is_js_whitespace (ws @ b # ys) = b # ys"
  by (induction ws) simp_all


text \<open>
  Claim C7, as amended.  Every comma that is followed by white space (possibly none) and
  then by a closing bracket or brace is replaced, with that white space, by the bracket or
  brace alone, wherever it stands in the text: the text before it and the text after it
  are treated on their own.  The step does not know about string literals: the text
  \<open>{"a":"x, }"}\<close> becomes \<open>{"a":"x}"}\<close>.
\<close>

theorem remove_trailing_commas_every_occurrence:
  assumes "\<forall>c\<in>set ws. is_js_whitespace c" and "b = RBRACKET \<or> b = RBRACE"
  shows \<open>remove_trailing_commas (xs @ [COMMA] @ ws @ [b] @ ys) =
           remove_trailing_commas xs @ [b] @ remove_trailing_commas ys
         \<and> remove_trailing_commas (js ''{"a":"x, }"}'') = js ''{"a":"x}"}''\<close>
proof -
  have nb: "\<not> is_js_whitespace b"
    using assms(2) by (auto simp: is_js_whitespace_def)
  have "remove_trailing_commas (COMMA # ws @ b # ys) = b # remove_trailing_commas ys"
    using assms(2) dropWhile_ws_skip[OF assms(1) nb, of ys] by auto
  then have a: "remove_trailing_commas (xs @ [COMMA] @ ws @ [b] @ ys) =
           remove_trailing_commas xs @ [b] @ remove_trailing_commas ys"
    using remove_trailing_commas_split[of xs "ws @ b # ys"] by simp
  have b: \<open>remove_trailing_commas (js ''{"a":"x, }"}'') = js ''{"a":"x}"}''\<close>
    by (simp add: js_def is_js_whitespace_def)
  from a b show ?thesis by simp
qed

theorem remove_trailing_commas_every_occurrence_witness:
  \<open>is_js_whitespace 32 \<and> is_js_whitespace 10
   \<and> remove_trailing_commas (js ''[1,'' @ [COMMA] @ [32, 10] @ [RBRACKET] @ js '',"k":2,}'')
       = js ''[1,]'' @ js '',"k":2}''\<close>
proof -
  have h: "\<forall>c\<in>set [32, 10]. is_js_whitespace c"
    by (simp add: is_js_whitespace_def)
  have x: \<open>remove_trailing_commas (js ''[1,'') = js ''[1,''\<close>
    by (simp add: js_def is_js_whitespace_def)
  have y: \<open>remove_trailing_commas (js '',"k":2,}'') = js '',"k":2}''\<close>
    by (simp add: js_def is_js_whitespace_def)
  show ?thesis
    using h remove_trailing_commas_every_occurrence[OF h, of RBRACKET \<open>js ''[1,''\<close>
        \<open>js '',"k":2,}''\<close>]
    unfolding x y by (simp add: js_def)
qed

text \<open>
  Claim C7, as stated, fails: a comma inside a string literal that is followed by a blank
  and a brace is removed with the blank, so the string value does not pass through
  unmodified.
\<close>

theorem remove_trailing_commas_string_counterexample:
  \<open>remove_trailing_commas (js ''{"a":"x, }"}'') \<noteq> js ''{"a":"x, }"}''\<close>
  by (simp add: js_def is_js_whitespace_def)

lemma startsWith_split: "startsWith s p \<Longrightarrow> s = p @ drop (length p) s"
  unfolding startsWith_def by (metis append_take_drop_id)

lemma endsWith_split: "endsWith s p \<Longrightarrow> s = take (length s - length p) s @ p"
  unfolding endsWith_def by (metis append_take_drop_id)

lemma length_FENCE: "length FENCE = 3"
  by (simp add: FENCE_def)

lemma replace_opening_fence_prefix:
  "\<exists>p. s = p @ replace_opening_fence s \<and>
       p \<in> {[], FENCE, FENCE @ js ''json'', FENCE @ [NEWLINE], FENCE @ js ''json'' @ [NEWLINE]} \<and>
       (startsWith s FENCE \<longrightarrow> p \<noteq> [])"
proof (cases "startsWith s FENCE")
  case False
  then show ?thesis by (simp add: replace_opening_fence_def)
next
  case True
  define r1 where "r1 = drop 3 s"
  define r2 where "r2 = (if startsWith r1 (js ''json'') then drop 4 r1 else r1)"
  define r3 where "r3 = (if startsWith r2 [NEWLINE] then drop 1 r2 else r2)"
  have res: "replace_opening_fence s = r3"
    using True by (simp add: replace_opening_fence_def r1_def r2_def r3_def Let_def)
  have s1: "s = FENCE @ r1"
    using startsWith_split[OF True] unfolding length_FENCE r1_def .
  have l4: "length (js ''json'') = 4" by (simp add: js_def)
  have s2: "r1 = (if startsWith r1 (js ''json'') then js ''json'' else []) @ r2"
  proof (cases "startsWith r1 (js ''json'')")
    case True
    from startsWith_split[OF True] show ?thesis
      unfolding l4 r2_def using True by simp
  next
    case False
    then show ?thesis by (simp add: r2_def)
  qed
  have s3: "r2 = (if startsWith r2 [NEWLINE] then [NEWLINE] else []) @ r3"
  proof (cases "startsWith r2 [NEWLINE]")
    case True
    from startsWith_split[OF True] show ?thesis
      unfolding r3_def using True by simp
  next
    case False
    then show ?thesis by (simp add: r3_def)
  qed
  define p where "p = FENCE @ (if startsWith r1 (js ''json'') then js ''json'' else [])
       @ (if startsWith r2 [NEWLINE] then [NEWLINE] else [])"
  have e: "s = p @ replace_opening_fence s"
    unfolding res using s1 s2 s3 unfolding p_def by (metis append.assoc)
  have m: "p \<in> {[], FENCE, FENCE @ js ''json'', FENCE @ [NEWLINE], FENCE @ js ''json'' @ [NEWLINE]}"
    unfolding p_def by simp
  have n: "p \<noteq> []"
    unfolding p_def by (simp add: FENCE_def)
  show ?thesis
    by (rule exI[of _ p]) (use e m n in blast)
qed

lemma replace_closing_fence_suffix:
  "\<exists>q. s = replace_closing_fence s @ q \<and> q \<in> {[], FENCE, NEWLINE # FENCE}"
proof -
  have a: "endsWith s (NEWLINE # FENCE) \<Longrightarrow> s = take (length s - 4) s @ NEWLINE # FENCE"
    using endsWith_split[of s "NEWLINE # FENCE"] by (simp add: length_FENCE)
  have b: "endsWith s FENCE \<Longrightarrow> s = take (length s - 3) s @ FENCE"
    using endsWith_split[of s FENCE] by (simp add: length_FENCE)
  show ?thesis
    using a b by (auto simp: replace_closing_fence_def)
qed

text \<open>
  Claim C10.  When the trimmed text does not start with the fence, the fence step returns
  it as it is, so a fence at its end stays.  In every case the fence step removes a prefix
  and a suffix of the trimmed text and nothing else: the prefix is empty or one fence,
  with \<open>json\<close> and one newline after it when they are there; the suffix is empty or one
  fence, with one newline before it when it is there; and nothing is removed at the end
  unless something is removed at the start.
\<close>

theorem fence_removal_guarded:
  "(\<not> startsWith (trim str) FENCE \<longrightarrow> strip_fences (trim str) = trim str)
   \<and> (\<exists>p q. trim str = p @ strip_fences (trim str) @ q
          \<and> p \<in> {[], FENCE, FENCE @ js ''json'', FENCE @ [NEWLINE],
                  FENCE @ js ''json'' @ [NEWLINE]}
          \<and> q \<in> {[], FENCE, NEWLINE # FENCE}
          \<and> (p = [] \<longrightarrow> q = []))"
proof (cases "startsWith (trim str) FENCE")
  case False
  then have e: "strip_fences (trim str) = trim str"
    by (simp add: strip_fences_def)
  have "trim str = [] @ strip_fences (trim str) @ []
          \<and> [] \<in> {[], FENCE, FENCE @ js ''json'', FENCE @ [NEWLINE],
                  FENCE @ js ''json'' @ [NEWLINE]}
          \<and> [] \<in> {[], FENCE, NEWLINE # FENCE}
          \<and> (([]::jsstring) = [] \<longrightarrow> ([]::jsstring) = [])"
    using e by simp
  then have "\<exists>p q. trim str = p @ strip_fences (trim str) @ q
          \<and> p \<in> {[], FENCE, FENCE @ js ''json'', FENCE @ [NEWLINE],
                  FENCE @ js ''json'' @ [NEWLINE]}
          \<and> q \<in> {[], FENCE, NEWLINE # FENCE}
          \<and> (p = [] \<longrightarrow> q = [])"
    by (intro exI)
  with e show ?thesis by simp
next
  case True
  obtain p where p: "trim str = p @ replace_opening_fence (trim str)"
    "p \<in> {[], FENCE, FENCE @ js ''json'', FENCE @ [NEWLINE], FENCE @ js ''json'' @ [NEWLINE]}"
    "p \<noteq> []"
    using replace_opening_fence_prefix[of "trim str"] True by blast
  obtain q where q: "replace_opening_fence (trim str) =
       replace_closing_fence (replace_opening_fence (trim str)) @ q"
    "q \<in> {[], FENCE, NEWLINE # FENCE}"
    using replace_closing_fence_suffix[of "replace_opening_fence (trim str)"] by blast
  have "strip_fences (trim str) = replace_closing_fence (replace_opening_fence (trim str))"
    using True by (simp add: strip_fences_def)
  with p(1) q(1) have "trim str = p @ strip_fences (trim str) @ q" by simp
  with p(2,3) q(2) have "trim str = p @ strip_fences (trim str) @ q
          \<and> p \<in> {[], FENCE, FENCE @ js ''json'', FENCE @ [NEWLINE],
                  FENCE @ js ''json'' @ [NEWLINE]}
          \<and> q \<in> {[], FENCE, NEWLINE # FENCE}
          \<and> (p = [] \<longrightarrow> q = [])"
    by simp
  then have "\<exists>p q. trim str = p @ strip_fences (trim str) @ q
          \<and> p \<in> {[], FENCE, FENCE @ js ''json'', FENCE @ [NEWLINE],
                  FENCE @ js ''json'' @ [NEWLINE]}
          \<and> q \<in> {[], FENCE, NEWLINE # FENCE}
          \<and> (p = [] \<longrightarrow> q = [])"
    by (intro exI)
  with True show ?thesis by simp
qed

theorem fence_removal_guarded_witness:
  \<open>\<not> startsWith (trim (js '' {"draws": []}'' @ [NEWLINE] @ FENCE)) FENCE
   \<and> strip_fences (trim (js '' {"draws": []}'' @ [NEWLINE] @ FENCE))
        = js ''{"draws": []}'' @ [NEWLINE] @ FENCE\<close>
proof -
  have t: \<open>trim (js '' {"draws": []}'' @ [NEWLINE] @ FENCE)
        = js ''{"draws": []}'' @ [NEWLINE] @ FENCE\<close>
    by (simp add: trim_def js_def is_js_whitespace_def FENCE_def)
  have h: \<open>\<not> startsWith (js ''{"draws": []}'' @ [NEWLINE] @ FENCE) FENCE\<close>
    by (simp add: js_def startsWith_def FENCE_def)
  show ?thesis
    using h fence_removal_guarded[of \<open>js '' {"draws": []}'' @ [NEWLINE] @ FENCE\<close>]
    unfolding t by simp
qed

section \<open>Properties of the validator, the sort and the pipeline\<close>

lemmas json_eval = JSON_parse_def js_def is_json_whitespace_def is_digit_def startsWith_def
  escape_char_def lex_number_def lex_int_part_def lex_frac_part_def lex_exp_part_def
  lex_sign_def digits_value_def

lemma is_valid_draw_iff:
  "is_valid_draw d \<longleftrightarrow>
     d \<noteq> JNull \<and> to_boolean (get_property d (js ''game''))
       \<and> to_boolean (get_property d (js ''date''))
       \<and> isArray (get_property d (js ''numbers''))"
  by (cases d) (simp_all add: is_valid_draw_def)

lemma insert_sorted_mset:
  "insert_sorted cmp x ys = Some zs \<Longrightarrow> mset zs = add_mset x (mset ys)"
proof (induction ys arbitrary: zs)
  case Nil
  then show ?case by auto
next
  case (Cons y ys)
  then show ?case
    by (auto split: option.splits if_splits)
qed

lemma array_sort_mset: "array_sort cmp xs = Some ys \<Longrightarrow> mset ys = mset xs"
proof (induction xs arbitrary: ys)
  case Nil
  then show ?case by simp
next
  case (Cons x xs)
  then show ?case
    by (auto split: option.splits dest: insert_sorted_mset)
qed

lemma insert_sorted_total:
  "\<forall>y\<in>set ys. cmp x y \<noteq> None \<Longrightarrow> \<exists>zs. insert_sorted cmp x ys = Some zs"
  by (induction ys) (auto split: option.splits)

lemma array_sort_total:
  "\<forall>x\<in>set xs. \<forall>y\<in>set xs. cmp x y \<noteq> None \<Longrightarrow> \<exists>ys. array_sort cmp xs = Some ys"
proof (induction xs)
  case Nil
  show ?case by simp
next
  case (Cons x xs)
  then obtain ys where ys: "array_sort cmp xs = Some ys" by auto
  have "set ys = set xs"
    using array_sort_mset[OF ys] by (rule mset_eq_setD)
  then have "\<forall>y\<in>set ys. cmp x y \<noteq> None"
    using Cons.prems by simp
  then show ?case
    using insert_sorted_total[of ys cmp x] ys by simp
qed

lemma SortCompare_total:
  "getTime (get_property x (js ''date'')) \<noteq> None \<Longrightarrow>
   getTime (get_property y (js ''date'')) \<noteq> None \<Longrightarrow>
   SortCompare (compare_draws getTime) x y \<noteq> None"
  by (auto simp: SortCompare_def compare_draws_def split: option.splits js_number.splits)

lemma date_only_getTime_total: "date_only_getTime v \<noteq> None"
  by (simp add: date_only_getTime_def Let_def split: option.splits json.splits list.splits)

lemma clean_example:
  \<open>cleanJsonString (js ''{"draws":[{"game":"Lotto","date":"2026-02-01","numbers":[1,2,3]},{"game":"","date":"2026-02-02","numbers":[]},{"numbers":[4]}]}'')
    = js ''{"draws":[{"game":"Lotto","date":"2026-02-01","numbers":[1,2,3]},{"game":"","date":"2026-02-02","numbers":[]},{"numbers":[4]}]}''\<close>
proof -
  have t: \<open>trim (js ''{"draws":[{"game":"Lotto","date":"2026-02-01","numbers":[1,2,3]},{"game":"","date":"2026-02-02","numbers":[]},{"numbers":[4]}]}'')
      = js ''{"draws":[{"game":"Lotto","date":"2026-02-01","numbers":[1,2,3]},{"game":"","date":"2026-02-02","numbers":[]},{"numbers":[4]}]}''\<close>
    by (simp add: trim_def js_def is_js_whitespace_def)
  have s: \<open>strip_fences (js ''{"draws":[{"game":"Lotto","date":"2026-02-01","numbers":[1,2,3]},{"game":"","date":"2026-02-02","numbers":[]},{"numbers":[4]}]}'')
      = js ''{"draws":[{"game":"Lotto","date":"2026-02-01","numbers":[1,2,3]},{"game":"","date":"2026-02-02","numbers":[]},{"numbers":[4]}]}''\<close>
    by (simp add: strip_fences_def js_def startsWith_def FENCE_def)
  have r: \<open>remove_trailing_commas (js ''{"draws":[{"game":"Lotto","date":"2026-02-01","numbers":[1,2,3]},{"game":"","date":"2026-02-02","numbers":[]},{"numbers":[4]}]}'')
      = js ''{"draws":[{"game":"Lotto","date":"2026-02-01","numbers":[1,2,3]},{"game":"","date":"2026-02-02","numbers":[]},{"numbers":[4]}]}''\<close>
    by (simp add: js_def is_js_whitespace_def)
  have p: \<open>JSON_parse (js ''{"draws":[{"game":"Lotto","date":"2026-02-01","numbers":[1,2,3]},{"game":"","date":"2026-02-02","numbers":[]},{"numbers":[4]}]}'') \<noteq> None\<close>
    by (simp add: json_eval)
  show ?thesis
    unfolding cleanJsonString_def Let_def t s r using p by (auto split: option.splits)
qed

lemma example_parsed:
  \<open>JSON_parse (js ''{"draws":[{"game":"Lotto","date":"2026-02-01","numbers":[1,2,3]},{"game":"","date":"2026-02-02","numbers":[]},{"numbers":[4]}]}'')
  = Some (JObject
      [(js ''draws'',
        JArray
         [JObject
           [(js ''game'', JString (js ''Lotto'')),
            (js ''date'', JString (js ''2026-02-01'')),
            (js ''numbers'', JArray [JNumber 1 0, JNumber 2 0, JNumber 3 0])],
          JObject
           [(js ''game'', JString []),
            (js ''date'', JString (js ''2026-02-02'')),
            (js ''numbers'', JArray [])],
          JObject [(js ''numbers'', JArray [JNumber 4 0])]])])\<close>
  by (simp add: json_eval)

lemma example_processed:
  \<open>process_data g srcs (JObject
      [(js ''draws'',
        JArray
         [JObject
           [(js ''game'', JString (js ''Lotto'')),
            (js ''date'', JString (js ''2026-02-01'')),
            (js ''numbers'', JArray [JNumber 1 0, JNumber 2 0, JNumber 3 0])],
          JObject
           [(js ''game'', JString []),
            (js ''date'', JString (js ''2026-02-02'')),
            (js ''numbers'', JArray [])],
          JObject [(js ''numbers'', JArray [JNumber 4 0])]])])
   = \<lparr>draws = [JObject
           [(js ''game'', JString (js ''Lotto'')),
            (js ''date'', JString (js ''2026-02-01'')),
            (js ''numbers'', JArray [JNumber 1 0, JNumber 2 0, JNumber 3 0])]],
       sources = srcs, errorDetail = None\<rparr>\<close>
  by (simp add: process_data_def is_valid_draw_def js_def)

text \<open>
  Claim C5.  For a parsed value whose \<open>draws\<close> is an array, when no read of a date throws,
  the result has no \<open>errorDetail\<close> and its draws are, each as often as in the array, the
  elements that are not \<open>null\<close> and have a truthy \<open>game\<close>, a truthy \<open>date\<close> and an array as
  \<open>numbers\<close>; an empty array of numbers is accepted.  For the example text of the
  specification the whole pipeline returns exactly the first record, whatever \<open>Date\<close>
  does.
\<close>

theorem validator_keeps_iff:
  assumes "get_property data (js ''draws'') = Some (JArray ds)"
    and "\<forall>d\<in>set ds. getTime (get_property d (js ''date'')) \<noteq> None"
  shows \<open>errorDetail (process_data getTime srcs data) = None
     \<and> mset (draws (process_data getTime srcs data))
         = mset (filter (\<lambda>d. d \<noteq> JNull \<and> to_boolean (get_property d (js ''game''))
                          \<and> to_boolean (get_property d (js ''date''))
                          \<and> isArray (get_property d (js ''numbers''))) ds)
     \<and> (\<forall>d. d \<in> set (draws (process_data getTime srcs data)) \<longleftrightarrow>
            d \<in> set ds \<and> d \<noteq> JNull \<and> to_boolean (get_property d (js ''game''))
              \<and> to_boolean (get_property d (js ''date''))
              \<and> isArray (get_property d (js ''numbers'')))
     \<and> is_valid_draw (JObject [(js ''game'', JString (js ''Lotto'')),
          (js ''date'', JString (js ''2026-02-01'')), (js ''numbers'', JArray [])])
     \<and> generateLotteryData
          \<lparr>API_KEY = Some (js ''k''),
           generateContent = (\<lambda>p. Resolved
             \<lparr>response_text = Some (js ''{"draws":[{"game":"Lotto","date":"2026-02-01","numbers":[1,2,3]},{"game":"","date":"2026-02-02","numbers":[]},{"numbers":[4]}]}''),
              groundingChunks = None\<rparr>),
           Date_getTime = getTime\<rparr> startDate endDate
        = \<lparr>draws = [JObject
             [(js ''game'', JString (js ''Lotto'')),
              (js ''date'', JString (js ''2026-02-01'')),
              (js ''numbers'', JArray [JNumber 1 0, JNumber 2 0, JNumber 3 0])]],
           sources = [], errorDetail = None\<rparr>\<close>
proof -
  define keep where "keep = (\<lambda>d. d \<noteq> JNull \<and> to_boolean (get_property d (js ''game''))
                          \<and> to_boolean (get_property d (js ''date''))
                          \<and> isArray (get_property d (js ''numbers'')))"
  have k: "is_valid_draw = keep"
    unfolding keep_def by (rule ext) (rule is_valid_draw_iff)
  have n: "data \<noteq> JNull" using assms(1) by auto
  have "\<forall>x\<in>set (filter keep ds). \<forall>y\<in>set (filter keep ds).
      SortCompare (compare_draws getTime) x y \<noteq> None"
  proof (intro ballI)
    fix x y assume "x \<in> set (filter keep ds)" and "y \<in> set (filter keep ds)"
    then have "getTime (get_property x (js ''date'')) \<noteq> None"
      and "getTime (get_property y (js ''date'')) \<noteq> None"
      using assms(2) by simp_all
    then show "SortCompare (compare_draws getTime) x y \<noteq> None"
      by (rule SortCompare_total)
  qed
  from array_sort_total[OF this] obtain out where
    out: "array_sort (SortCompare (compare_draws getTime)) (filter keep ds) = Some out"
    by blast
  have p: "process_data getTime srcs data = \<lparr>draws = out, sources = srcs, errorDetail = None\<rparr>"
    using n assms(1) out by (simp add: process_data_def Let_def k)
  have m: "mset out = mset (filter keep ds)"
    using out by (rule array_sort_mset)
  have s: "set out = set (filter keep ds)"
    using m by (rule mset_eq_setD)
  have a: "errorDetail (process_data getTime srcs data) = None"
    by (simp add: p)
  have b: "mset (draws (process_data getTime srcs data)) = mset (filter keep ds)"
    by (simp add: p m)
  have c: "\<forall>d. d \<in> set (draws (process_data getTime srcs data)) \<longleftrightarrow> d \<in> set ds \<and> keep d"
    by (simp add: p s)
  have e: \<open>is_valid_draw (JObject [(js ''game'', JString (js ''Lotto'')),
          (js ''date'', JString (js ''2026-02-01'')), (js ''numbers'', JArray [])])\<close>
    by (simp add: is_valid_draw_def js_def)
  have nk: \<open>js ''k'' \<noteq> []\<close> by (simp add: js_def)
  have ne: \<open>js ''{"draws":[{"game":"Lotto","date":"2026-02-01","numbers":[1,2,3]},{"game":"","date":"2026-02-02","numbers":[]},{"numbers":[4]}]}'' \<noteq> []\<close>
    by (simp add: js_def)
  have g: \<open>generateLotteryData
          \<lparr>API_KEY = Some (js ''k''),
           generateContent = (\<lambda>p. Resolved
             \<lparr>response_text = Some (js ''{"draws":[{"game":"Lotto","date":"2026-02-01","numbers":[1,2,3]},{"game":"","date":"2026-02-02","numbers":[]},{"numbers":[4]}]}''),
              groundingChunks = None\<rparr>),
           Date_getTime = getTime\<rparr> startDate endDate
        = \<lparr>draws = [JObject
             [(js ''game'', JString (js ''Lotto'')),
              (js ''date'', JString (js ''2026-02-01'')),
              (js ''numbers'', JArray [JNumber 1 0, JNumber 2 0, JNumber 3 0])]],
           sources = [], errorDetail = None\<rparr>\<close>
    by (simp add: generateLotteryData_def Let_def nk ne clean_example example_parsed
        example_processed)
  from a b c e g show ?thesis unfolding keep_def by blast
qed

theorem validator_keeps_iff_witness:
  "mset (draws (process_data date_only_getTime []
      (JObject [(js ''draws'', JArray [JNull, lotto_draw ''2026-01-01'', JObject [],
         JNumber 7 0])])))
     = {#lotto_draw ''2026-01-01''#}"
proof -
  define ds where "ds = [JNull, lotto_draw ''2026-01-01'', JObject [], JNumber 7 0]"
  have h1: "get_property (JObject [(js ''draws'', JArray ds)]) (js ''draws'') = Some (JArray ds)"
    by simp
  have h2: "\<forall>d\<in>set ds. date_only_getTime (get_property d (js ''date'')) \<noteq> None"
    by (simp add: date_only_getTime_total)
  have f: "filter (\<lambda>d. d \<noteq> JNull \<and> to_boolean (get_property d (js ''game''))
                          \<and> to_boolean (get_property d (js ''date''))
                          \<and> isArray (get_property d (js ''numbers''))) ds
      = [lotto_draw ''2026-01-01'']"
    by (simp add: ds_def lotto_draw_def js_def)
  show ?thesis
    using validator_keeps_iff[OF h1 h2, of "[]"] unfolding f unfolding ds_def by simp
qed

lemma clean_default: \<open>cleanJsonString (js ''{"draws": []}'') = js ''{"draws": []}''\<close>
proof -
  have t: \<open>trim (js ''{"draws": []}'') = js ''{"draws": []}''\<close>
    by (simp add: trim_def js_def is_js_whitespace_def)
  have s: \<open>strip_fences (js ''{"draws": []}'') = js ''{"draws": []}''\<close>
    by (simp add: strip_fences_def js_def startsWith_def FENCE_def)
  have r: \<open>remove_trailing_commas (js ''{"draws": []}'') = js ''{"draws": []}''\<close>
    by (simp add: js_def is_js_whitespace_def)
  have p: \<open>JSON_parse (js ''{"draws": []}'') = Some (JObject [(js ''draws'', JArray [])])\<close>
    by (simp add: json_eval)
  show ?thesis
    by (simp add: cleanJsonString_def Let_def t s r p)
qed

lemma parse_default: \<open>JSON_parse (js ''{"draws": []}'') = Some (JObject [(js ''draws'', JArray [])])\<close>
    by (simp add: json_eval)

text \<open>
  Claim C9.  With an API key, when the call resolves with a text that is \<open>undefined\<close> or
  empty, the result has no draws, the sources of the response and no \<open>errorDetail\<close>.
\<close>

theorem empty_payload_no_error:
  assumes "API_KEY env = Some key" and "key \<noteq> []"
    and "generateContent env (prompt startDate endDate) = Resolved r"
    and "response_text r = None \<or> response_text r = Some []"
  shows "generateLotteryData env startDate endDate =
           \<lparr>draws = [],
            sources = (case groundingChunks r of None \<Rightarrow> []
                       | Some chunks \<Rightarrow> List.map_filter web chunks),
            errorDetail = None\<rparr>"
proof -
  have pd: "process_data g srcs (JObject [(js ''draws'', JArray [])]) =
      \<lparr>draws = [], sources = srcs, errorDetail = None\<rparr>" for g srcs
    by (simp add: process_data_def)
  show ?thesis
    using assms
    by (auto simp: generateLotteryData_def Let_def clean_default parse_default pd)
qed

theorem empty_payload_no_error_witness:
  \<open>generateLotteryData
      \<lparr>API_KEY = Some (js ''k''),
       generateContent = (\<lambda>p. Resolved \<lparr>response_text = Some [], groundingChunks = None\<rparr>),
       Date_getTime = date_only_getTime\<rparr> (js ''2026-01-01'') (js ''2026-02-01'')
    = \<lparr>draws = [], sources = [], errorDetail = None\<rparr>\<close>
  using empty_payload_no_error[of
      \<open>\<lparr>API_KEY = Some (js ''k''),
       generateContent = (\<lambda>p. Resolved \<lparr>response_text = Some [], groundingChunks = None\<rparr>),
       Date_getTime = date_only_getTime\<rparr>\<close> \<open>js ''k''\<close> \<open>js ''2026-01-01''\<close> \<open>js ''2026-02-01''\<close>
      \<open>\<lparr>response_text = Some [], groundingChunks = None\<rparr>\<close>]
  by (simp add: js_def)

lemma clean_null: \<open>cleanJsonString (js ''null'') = js ''null''\<close>
proof -
  have t: \<open>trim (js ''null'') = js ''null''\<close>
    by (simp add: trim_def js_def is_js_whitespace_def)
  have s: \<open>strip_fences (js ''null'') = js ''null''\<close>
    by (simp add: strip_fences_def js_def startsWith_def FENCE_def)
  have r: \<open>remove_trailing_commas (js ''null'') = js ''null''\<close>
    by (simp add: js_def is_js_whitespace_def)
  have p: \<open>JSON_parse (js ''null'') = Some JNull\<close>
    by (simp add: json_eval)
  show ?thesis
    by (simp add: cleanJsonString_def Let_def t s r p)
qed

text \<open>
  A parsed value other than \<open>null\<close> whose \<open>draws\<close> is no array gives an empty result with no
  \<open>errorDetail\<close>.
\<close>

lemma process_data_without_draws:
  assumes "data \<noteq> JNull" and "\<not> isArray (get_property data (js ''draws''))"
  shows "process_data getTime srcs data = \<lparr>draws = [], sources = srcs, errorDetail = None\<rparr>"
proof (cases "get_property data (js ''draws'')")
  case None
  then show ?thesis using assms(1) by (simp add: process_data_def)
next
  case (Some d)
  then show ?thesis using assms by (cases d) (simp_all add: process_data_def)
qed

text \<open>
  Claim C4, at the payload \<open>null\<close>.  The text \<open>null\<close> is left as it is by the normalizer
  and parses to the value \<open>null\<close>; then the read of \<open>data.draws\<close> throws, and the result
  carries the \<open>errorDetail\<close> of an interrupted stream although the payload is parseable
  JSON and the call did not fail.
\<close>

theorem null_payload_sets_errorDetail:
  \<open>JSON_parse (cleanJsonString (js ''null'')) = Some JNull
   \<and> generateLotteryData
      \<lparr>API_KEY = Some (js ''k''),
       generateContent = (\<lambda>p. Resolved \<lparr>response_text = Some (js ''null''), groundingChunks = None\<rparr>),
       Date_getTime = date_only_getTime\<rparr> (js ''2026-01-01'') (js ''2026-02-01'')
    = \<lparr>draws = [], sources = [],
       errorDetail = Some (js ''Data stream was interrupted. Try a smaller date range.'')\<rparr>\<close>
proof -
  have p: \<open>JSON_parse (js ''null'') = Some JNull\<close>
    by (simp add: json_eval)
  have n: \<open>js ''null'' \<noteq> []\<close> \<open>js ''k'' \<noteq> []\<close> by (simp_all add: js_def)
  show ?thesis
    by (simp add: generateLotteryData_def Let_def clean_null p n process_data_def interrupted_def)
qed

lemma SortCompare_finite:
  assumes "getTime (get_property x (js ''date'')) = Some (Finite tx)"
    and "getTime (get_property y (js ''date'')) = Some (Finite ty)"
  shows "SortCompare (compare_draws getTime) x y = Some (ty - tx)"
  using assms by (simp add: SortCompare_def compare_draws_def)

lemma insert_sorted_insort:
  assumes "getTime (get_property x (js ''date'')) = Some (Finite (tm x))"
    and "\<forall>d\<in>set ys. getTime (get_property d (js ''date'')) = Some (Finite (tm d))"
  shows "insert_sorted (SortCompare (compare_draws getTime)) x ys
           = Some (insort_key (\<lambda>d. - tm d) x ys)"
  using assms(2)
proof (induction ys)
  case Nil
  show ?case by simp
next
  case (Cons y ys)
  have c: "SortCompare (compare_draws getTime) x y = Some (tm y - tm x)"
    using SortCompare_finite[of getTime x "tm x" y "tm y"] assms(1) Cons.prems by simp
  show ?case
    using Cons by (simp add: c)
qed

lemma array_sort_sort_key:
  assumes "\<forall>d\<in>set xs. getTime (get_property d (js ''date'')) = Some (Finite (tm d))"
  shows "array_sort (SortCompare (compare_draws getTime)) xs = Some (sort_key (\<lambda>d. - tm d) xs)"
  using assms
proof (induction xs)
  case Nil
  show ?case by simp
next
  case (Cons x xs)
  have s: "\<forall>d\<in>set (sort_key (\<lambda>d. - tm d) xs).
      getTime (get_property d (js ''date'')) = Some (Finite (tm d))"
    using Cons.prems by simp
  show ?case
    using Cons insert_sorted_insort[of getTime x tm "sort_key (\<lambda>d. - tm d) xs"] s by simp
qed


text \<open>
  The three properties of the output (same records, descending time values, equal time
  values in their original order) leave one possible output, whatever the sequence of
  comparator calls of the sort.
\<close>

lemma date_order_unique:
  assumes "mset out = mset kept"
    and "sorted_wrt (\<lambda>a b. tm a \<ge> tm b) out"
    and "\<forall>t. filter (\<lambda>d. tm d = t) out = filter (\<lambda>d. tm d = (t::int)) kept"
  shows "out = sort_key (\<lambda>d. - tm d) kept"
proof -
  have s: "sorted (map (\<lambda>d. - tm d) out)"
    using assms(2) by (simp add: sorted_map)
  have f: "filter (\<lambda>x. - tm k = - tm x) out = filter (\<lambda>x. - tm k = - tm x) kept" for k
  proof -
    have "(\<lambda>x. - tm k = - tm x) = (\<lambda>d. tm d = tm k)" by auto
    then show "filter (\<lambda>x. - tm k = - tm x) out = filter (\<lambda>x. - tm k = - tm x) kept"
      using assms(3) by simp
  qed
  show ?thesis
    using properties_for_sort_key[OF assms(1) f s] by simp
qed

lemmas date_eval = date_only_getTime_def days_from_civil_def days_in_month_def is_digit_def
  digits_value_def js_def Let_def

lemma ex_dates:
  "date_only_getTime (Some (JString (js ''2026-01-01''))) = Some (Finite 1767225600000)"
  "date_only_getTime (Some (JString (js ''2026-02-15''))) = Some (Finite 1771113600000)"
  "date_only_getTime (Some (JString (js ''2026-01-20''))) = Some (Finite 1768867200000)"
  "date_only_getTime (Some (JString (js ''2026-02-01''))) = Some (Finite 1769904000000)"
  "date_only_getTime (Some (JString (js ''soon''))) = Some NaN"
  by (simp_all add: date_eval)

lemma lotto_draw_valid: "is_valid_draw (lotto_draw (c # cs))"
  by (simp add: lotto_draw_def is_valid_draw_def js_def)

lemma lotto_draw_date: "get_property (lotto_draw d) (js ''date'') = Some (JString (js d))"
  by (simp add: lotto_draw_def js_def)

lemma example_sort:
  "process_data date_only_getTime []
      (JObject [(js ''draws'', JArray [lotto_draw ''2026-01-01'', lotto_draw ''2026-02-15'',
          lotto_draw ''2026-01-20''])])
     = \<lparr>draws = [lotto_draw ''2026-02-15'', lotto_draw ''2026-01-20'', lotto_draw ''2026-01-01''],
         sources = [], errorDetail = None\<rparr>"
proof -
  have g: "get_property (JObject [(js ''draws'', JArray ds)]) (js ''draws'') = Some (JArray ds)" for ds
    by simp
  have c: "SortCompare (compare_draws date_only_getTime) (lotto_draw ''2026-01-20'') (lotto_draw ''2026-01-01'') = Some (- 1641600000)"
     "SortCompare (compare_draws date_only_getTime) (lotto_draw ''2026-02-15'') (lotto_draw ''2026-01-20'') = Some (- 2246400000)"
     "SortCompare (compare_draws date_only_getTime) (lotto_draw ''2026-01-01'') (lotto_draw ''2026-02-15'') = Some 3888000000"
     "SortCompare (compare_draws date_only_getTime) (lotto_draw ''2026-01-01'') (lotto_draw ''2026-01-20'') = Some 1641600000"
    by (simp_all add: SortCompare_def compare_draws_def lotto_draw_date ex_dates)
  show ?thesis
    unfolding process_data_def g
    by (simp add: lotto_draw_valid c)
qed


text \<open>
  Claim C6.  When every kept record has a date that \<open>Date\<close> reads as a time value, the
  draws of the result are the kept records (the same records, each as often), ordered by
  descending time value, and records of equal time value stand in their original order.
  With the dates 2026-01-01, 2026-02-15 and 2026-01-20 the output order is 2026-02-15,
  2026-01-20, 2026-01-01.
\<close>

theorem sort_by_date_descending:
  assumes "get_property data (js ''draws'') = Some (JArray ds)"
    and "kept = filter is_valid_draw ds"
    and "\<forall>d\<in>set kept. getTime (get_property d (js ''date'')) = Some (Finite (tm d))"
  shows "(\<exists>out. array_sort (SortCompare (compare_draws getTime)) kept = Some out
          \<and> process_data getTime srcs data = \<lparr>draws = out, sources = srcs, errorDetail = None\<rparr>
          \<and> mset out = mset kept
          \<and> sorted_wrt (\<lambda>a b. tm a \<ge> tm b) out
          \<and> (\<forall>t. filter (\<lambda>d. tm d = t) out = filter (\<lambda>d. tm d = t) kept))
      \<and> process_data date_only_getTime []
            (JObject [(js ''draws'', JArray [lotto_draw ''2026-01-01'', lotto_draw ''2026-02-15'',
               lotto_draw ''2026-01-20''])])
          = \<lparr>draws = [lotto_draw ''2026-02-15'', lotto_draw ''2026-01-20'',
               lotto_draw ''2026-01-01''],
             sources = [], errorDetail = None\<rparr>"
proof -
  define out where "out = sort_key (\<lambda>d. - tm d) kept"
  have a: "array_sort (SortCompare (compare_draws getTime)) kept = Some out"
    unfolding out_def using assms(3) by (rule array_sort_sort_key)
  have n: "data \<noteq> JNull"
    using assms(1) by auto
  have p: "process_data getTime srcs data = \<lparr>draws = out, sources = srcs, errorDetail = None\<rparr>"
    using a n assms(1) assms(2) by (simp add: process_data_def Let_def)
  have m: "mset out = mset kept"
    by (simp add: out_def)
  have "sorted (map (\<lambda>d. - tm d) out)"
    by (simp add: out_def)
  then have s: "sorted_wrt (\<lambda>a b. tm a \<ge> tm b) out"
    by (simp add: sorted_map)
  have f: "filter (\<lambda>d. tm d = t) out = filter (\<lambda>d. tm d = t) kept" for t
    using sort_key_stable[of "\<lambda>d. - tm d" "- t" kept] by (simp add: out_def)
  from a p m s f example_sort show ?thesis by blast
qed

theorem sort_by_date_descending_witness:
  "\<exists>out. array_sort (SortCompare (compare_draws date_only_getTime))
            [lotto_draw ''2026-01-01'', lotto_draw ''2026-02-15''] = Some out
      \<and> mset out = mset [lotto_draw ''2026-01-01'', lotto_draw ''2026-02-15'']
      \<and> sorted_wrt (\<lambda>a b.
            (case date_only_getTime (get_property a (js ''date'')) of
               Some (Finite t) \<Rightarrow> t | _ \<Rightarrow> 0)
            \<ge> (case date_only_getTime (get_property b (js ''date'')) of
               Some (Finite t) \<Rightarrow> t | _ \<Rightarrow> 0)) out"
proof -
  define tm :: "json \<Rightarrow> int" where
    "tm = (\<lambda>a. case date_only_getTime (get_property a (js ''date'')) of
               Some (Finite t) \<Rightarrow> t | _ \<Rightarrow> 0)"
  define ds where "ds = [lotto_draw ''2026-01-01'', JNull, lotto_draw ''2026-02-15'']"
  define kept where "kept = [lotto_draw ''2026-01-01'', lotto_draw ''2026-02-15'']"
  have h1: "get_property (JObject [(js ''draws'', JArray ds)]) (js ''draws'') = Some (JArray ds)"
    by simp
  have nn: "\<not> is_valid_draw JNull"
    by (simp add: is_valid_draw_def)
  have h2: "kept = filter is_valid_draw ds"
    by (simp add: kept_def ds_def lotto_draw_valid nn)
  have h3: "\<forall>d\<in>set kept. date_only_getTime (get_property d (js ''date'')) = Some (Finite (tm d))"
    by (simp add: kept_def tm_def lotto_draw_date ex_dates)
  show ?thesis
    using sort_by_date_descending[OF h1 h2 h3, of "[]"]
    unfolding kept_def tm_def by blast
qed

text \<open>
  Claim C8, as amended.  When the date of one of two kept records is read as \<open>NaN\<close> (and
  no read throws), the comparator gives \<open>NaN\<close>, which the sort reads as \<open>0\<close>: the two
  records compare as equal in both orders, and when they are the only kept records the
  result has them in their input order.
\<close>

theorem unparsable_date_compares_equal:
  assumes "is_valid_draw a" and "is_valid_draw b"
    and "getTime (get_property a (js ''date'')) = Some ta"
    and "getTime (get_property b (js ''date'')) = Some tb"
    and "ta = NaN \<or> tb = NaN"
  shows "SortCompare (compare_draws getTime) a b = Some 0
       \<and> SortCompare (compare_draws getTime) b a = Some 0
       \<and> array_sort (SortCompare (compare_draws getTime)) [a, b] = Some [a, b]
       \<and> process_data getTime srcs (JObject [(js ''draws'', JArray [a, b])])
           = \<lparr>draws = [a, b], sources = srcs, errorDetail = None\<rparr>"
proof -
  have m: "number_minus tb ta = NaN" "number_minus ta tb = NaN"
    using assms(5) by (cases ta; cases tb; simp)+
  have c: "SortCompare (compare_draws getTime) a b = Some 0"
    "SortCompare (compare_draws getTime) b a = Some 0"
    using assms(3,4) m by (simp_all add: SortCompare_def compare_draws_def)
  have s: "array_sort (SortCompare (compare_draws getTime)) [a, b] = Some [a, b]"
    using c by simp
  have g: "get_property (JObject [(js ''draws'', JArray [a, b])]) (js ''draws'')
      = Some (JArray [a, b])"
    by simp
  have p: "process_data getTime srcs (JObject [(js ''draws'', JArray [a, b])])
           = \<lparr>draws = [a, b], sources = srcs, errorDetail = None\<rparr>"
    unfolding process_data_def g using assms(1,2) s by simp
  from c s p show ?thesis by simp
qed

theorem unparsable_date_compares_equal_witness:
  "is_valid_draw (lotto_draw ''soon'') \<and> is_valid_draw (lotto_draw ''2026-02-01'')
   \<and> date_only_getTime (get_property (lotto_draw ''soon'') (js ''date'')) = Some NaN
   \<and> array_sort (SortCompare (compare_draws date_only_getTime))
        [lotto_draw ''2026-02-01'', lotto_draw ''soon'']
      = Some [lotto_draw ''2026-02-01'', lotto_draw ''soon'']
   \<and> array_sort (SortCompare (compare_draws date_only_getTime))
        [lotto_draw ''soon'', lotto_draw ''2026-02-01'']
      = Some [lotto_draw ''soon'', lotto_draw ''2026-02-01'']"
proof -
  have a: "date_only_getTime (get_property (lotto_draw ''soon'') (js ''date'')) = Some NaN"
    by (simp add: lotto_draw_date ex_dates)
  have b: "date_only_getTime (get_property (lotto_draw ''2026-02-01'') (js ''date''))
      = Some (Finite 1769904000000)"
    by (simp add: lotto_draw_date ex_dates)
  have va: "is_valid_draw (lotto_draw ''soon'')" by (rule lotto_draw_valid)
  have vb: "is_valid_draw (lotto_draw ''2026-02-01'')" by (rule lotto_draw_valid)
  show ?thesis
    using a va vb unparsable_date_compares_equal[OF va vb a b, of "[]"]
      unparsable_date_compares_equal[OF vb va b a, of "[]"]
    by simp
qed

text \<open>
  Claim C8, as stated, fails: a record with the date \<open>soon\<close>, which is no date, followed
  by a record with the date 2026-02-01 stays in front of it.
\<close>

theorem unparsable_date_first_counterexample:
  "date_only_getTime (get_property (lotto_draw ''soon'') (js ''date'')) = Some NaN
   \<and> date_only_getTime (get_property (lotto_draw ''2026-02-01'') (js ''date''))
        = Some (Finite 1769904000000)
   \<and> process_data date_only_getTime []
        (JObject [(js ''draws'', JArray [lotto_draw ''soon'', lotto_draw ''2026-02-01''])])
      = \<lparr>draws = [lotto_draw ''soon'', lotto_draw ''2026-02-01''], sources = [],
         errorDetail = None\<rparr>"
proof -
  have c: "SortCompare (compare_draws date_only_getTime) (lotto_draw ''soon'') (lotto_draw ''2026-02-01'') = Some 0"
    by (simp add: SortCompare_def compare_draws_def lotto_draw_date ex_dates)
  have g: "get_property (JObject [(js ''draws'', JArray ds)]) (js ''draws'') = Some (JArray ds)" for ds
    by simp
  have p: "process_data date_only_getTime []
        (JObject [(js ''draws'', JArray [lotto_draw ''soon'', lotto_draw ''2026-02-01''])])
      = \<lparr>draws = [lotto_draw ''soon'', lotto_draw ''2026-02-01''], sources = [],
         errorDetail = None\<rparr>"
    unfolding process_data_def g by (simp add: lotto_draw_valid c)
  show ?thesis
    using p by (simp add: lotto_draw_date ex_dates)
qed

section \<open>The repair leaves valid JSON as it is\<close>

lemma scan_step_plain: "plain c \<Longrightarrow> scan_step (outside_state stk) c = outside_state stk"
  by (simp add: scan_step_def outside_state_def plain_def Let_def)

lemma scan_plain: "\<forall>c\<in>set cs. plain c \<Longrightarrow> foldl scan_step (outside_state stk) cs = outside_state stk"
  by (induction cs) (simp_all add: scan_step_plain)

lemma scan_step_quote: "scan_step (outside_state stk) QUOTE = inside_state stk"
  by (simp add: scan_step_def outside_state_def inside_state_def Let_def)

lemma scan_step_inside_quote: "scan_step (inside_state stk) QUOTE = outside_state stk"
  by (simp add: scan_step_def outside_state_def inside_state_def Let_def)

lemma scan_step_inside_other:
  "c \<noteq> QUOTE \<Longrightarrow> c \<noteq> BACKSLASH \<Longrightarrow> scan_step (inside_state stk) c = inside_state stk"
  by (simp add: scan_step_def inside_state_def Let_def)

lemma scan_step_inside_escape:
  "scan_step (scan_step (inside_state stk) BACKSLASH) e = inside_state stk"
  by (simp add: scan_step_def inside_state_def Let_def)

lemma hex_digit_other: "hex_digit h = Some d \<Longrightarrow> h \<noteq> QUOTE \<and> h \<noteq> BACKSLASH"
  by (auto simp: hex_digit_def split: if_splits)

lemma scan_lex_string:
  "lex_string acc cs = Some (v, rest) \<Longrightarrow>
     foldl scan_step (inside_state stk) cs = foldl scan_step (outside_state stk) rest"
proof (induction cs arbitrary: acc rule: length_induct)
  case (1 xs)
  note IH = "1.IH"[rule_format]
  note prem = "1.prems"
  show ?case
  proof (cases xs)
    case Nil
    then show ?thesis using prem by simp
  next
    case (Cons c cs)
    show ?thesis
    proof (cases "c = QUOTE")
      case True
      then show ?thesis using prem Cons by (simp add: scan_step_inside_quote)
    next
      case nq: False
      show ?thesis
      proof (cases "c = BACKSLASH")
        case True
        then obtain e cs1 where cs: "cs = e # cs1"
          using prem Cons by (cases cs) auto
        show ?thesis
        proof (cases "e = ch CHR ''u''")
          case u: True
          then obtain h1 h2 h3 h4 cs2 d1 d2 d3 d4 where
            h: "cs1 = h1 # h2 # h3 # h4 # cs2"
               "hex_digit h1 = Some d1" "hex_digit h2 = Some d2"
               "hex_digit h3 = Some d3" "hex_digit h4 = Some d4"
            and r: "lex_string (acc @ [((d1 * 16 + d2) * 16 + d3) * 16 + d4]) cs2 = Some (v, rest)"
            using prem True cs Cons
            by (auto split: list.splits option.splits)
          have l: "length cs2 < length xs"
            using Cons cs h(1) by simp
          have "foldl scan_step (inside_state stk) cs2 = foldl scan_step (outside_state stk) rest"
            using IH[OF l r] .
          then show ?thesis
            using True cs Cons h hex_digit_other
            by (simp add: scan_step_inside_escape scan_step_inside_other)
        next
          case nu: False
          then obtain x where x: "escape_char e = Some x"
            and r: "lex_string (acc @ [x]) cs1 = Some (v, rest)"
            using prem True cs Cons by (auto split: option.splits)
          have l: "length cs1 < length xs"
            using Cons cs by simp
          have "foldl scan_step (inside_state stk) cs1 = foldl scan_step (outside_state stk) rest"
            using IH[OF l r] .
          then show ?thesis
            using True cs Cons by (simp add: scan_step_inside_escape)
        qed
      next
        case nb: False
        then have r: "lex_string (acc @ [c]) cs = Some (v, rest)"
          using prem nq Cons by (auto split: if_splits)
        have l: "length cs < length xs"
          using Cons by simp
        have "foldl scan_step (inside_state stk) cs = foldl scan_step (outside_state stk) rest"
          using IH[OF l r] .
        then show ?thesis
          using nq nb Cons by (simp add: scan_step_inside_other)
      qed
    qed
  qed
qed

lemma skips_plain_refl: "skips_plain s s"
  by (simp add: skips_plain_def)

lemma skips_plain_trans: "skips_plain s r \<Longrightarrow> skips_plain r t \<Longrightarrow> skips_plain s t"
  unfolding skips_plain_def
proof -
  assume "\<exists>p. s = p @ r \<and> (\<forall>c\<in>set p. plain c)" and "\<exists>p. r = p @ t \<and> (\<forall>c\<in>set p. plain c)"
  then obtain p q where "s = p @ r" "\<forall>c\<in>set p. plain c" "r = q @ t" "\<forall>c\<in>set q. plain c"
    by blast
  then have "s = (p @ q) @ t \<and> (\<forall>c\<in>set (p @ q). plain c)" by auto
  then show "\<exists>p. s = p @ t \<and> (\<forall>c\<in>set p. plain c)" by blast
qed

lemma skips_plain_Cons: "plain c \<Longrightarrow> skips_plain (c # s) s"
  unfolding skips_plain_def by (rule exI[of _ "[c]"]) simp

lemma is_digit_plain: "is_digit c \<Longrightarrow> plain c"
  by (simp add: is_digit_def plain_def)

lemma skips_plain_digits: "skips_plain s (dropWhile is_digit s)"
  unfolding skips_plain_def
  by (rule exI[of _ "takeWhile is_digit s"]) (auto dest: set_takeWhileD is_digit_plain)

lemma scan_skips_plain:
  "skips_plain s r \<Longrightarrow> foldl scan_step (outside_state stk) s = foldl scan_step (outside_state stk) r"
  by (auto simp: skips_plain_def scan_plain)

lemma lex_int_part_skips: "lex_int_part s = Some (ip, r) \<Longrightarrow> skips_plain s r"
  using skips_plain_digits[of s]
  by (auto simp: lex_int_part_def split: list.splits if_splits
      intro!: skips_plain_Cons simp: plain_def)

lemma lex_frac_part_skips: "lex_frac_part s = Some (fp, r) \<Longrightarrow> skips_plain s r"
proof (cases s)
  case Nil
  assume "lex_frac_part s = Some (fp, r)"
  then show ?thesis using Nil by (simp add: lex_frac_part_def skips_plain_refl)
next
  case (Cons c t)
  assume a: "lex_frac_part s = Some (fp, r)"
  show ?thesis
  proof (cases "c = DOT")
    case True
    then have "r = dropWhile is_digit t" using a Cons
      by (auto simp: lex_frac_part_def split: if_splits)
    moreover have "skips_plain (c # t) t"
      using True by (intro skips_plain_Cons) (simp add: plain_def)
    ultimately show ?thesis
      using Cons skips_plain_trans[OF _ skips_plain_digits[of t]] by simp
  next
    case False
    then show ?thesis using a Cons by (simp add: lex_frac_part_def skips_plain_refl)
  qed
qed

lemma lex_sign_skips: "lex_sign s = (neg, r) \<Longrightarrow> skips_plain s r"
  by (auto simp: lex_sign_def skips_plain_refl split: list.splits if_splits
      intro!: skips_plain_Cons simp: plain_def)

lemma lex_exp_part_skips: "lex_exp_part s = Some (ex, r) \<Longrightarrow> skips_plain s r"
proof (cases s)
  case Nil
  assume "lex_exp_part s = Some (ex, r)"
  then show ?thesis using Nil by (simp add: lex_exp_part_def skips_plain_refl)
next
  case (Cons c t)
  assume a: "lex_exp_part s = Some (ex, r)"
  show ?thesis
  proof (cases "c = ch CHR ''e'' \<or> c = ch CHR ''E''")
    case True
    obtain neg r1 where s: "lex_sign t = (neg, r1)" by (cases "lex_sign t")
    have "r = dropWhile is_digit r1" using a Cons True s
      by (auto simp: lex_exp_part_def split: if_splits)
    moreover have "skips_plain (c # t) t"
      using True by (intro skips_plain_Cons) (auto simp: plain_def)
    ultimately show ?thesis
      using Cons skips_plain_trans[OF _ skips_plain_trans[OF lex_sign_skips[OF s] skips_plain_digits[of r1]]]
      by simp
  next
    case False
    then show ?thesis using a Cons by (auto simp: lex_exp_part_def skips_plain_refl)
  qed
qed

lemma lex_number_skips: "lex_number s = Some (m, e, r) \<Longrightarrow> skips_plain s r"
proof -
  assume a: "lex_number s = Some (m, e, r)"
  define s1 where "s1 = (case s of [] \<Rightarrow> s | c # t \<Rightarrow> if c = MINUS then t else s)"
  have 0: "skips_plain s s1"
    unfolding s1_def
    by (auto split: list.splits simp: skips_plain_refl intro!: skips_plain_Cons simp: plain_def)
  from a obtain ip s2 fp s3 ex where
    p: "lex_int_part s1 = Some (ip, s2)" "lex_frac_part s2 = Some (fp, s3)"
       "lex_exp_part s3 = Some (ex, r)"
    unfolding s1_def
    by (auto simp: lex_number_def split: list.splits option.splits if_splits prod.splits)
  show ?thesis
    using 0 lex_int_part_skips[OF p(1)] lex_frac_part_skips[OF p(2)] lex_exp_part_skips[OF p(3)]
    by (blast intro: skips_plain_trans)
qed

lemma startsWith_skips:
  "startsWith s p \<Longrightarrow> \<forall>c\<in>set p. plain c \<Longrightarrow> skips_plain s (drop (length p) s)"
  unfolding skips_plain_def using startsWith_split[of s p] by blast

lemma scan_step_outside_token:
  "scan_step (outside_state stk) LBRACE = outside_state (token_stack stk TLBrace)"
  "scan_step (outside_state stk) LBRACKET = outside_state (token_stack stk TLBracket)"
  "scan_step (outside_state stk) RBRACE = outside_state (token_stack stk TRBrace)"
  "scan_step (outside_state stk) RBRACKET = outside_state (token_stack stk TRBracket)"
  by (simp_all add: scan_step_def outside_state_def Let_def)

lemma literal_plain:
  "\<forall>c\<in>set (js ''true''). plain c" "\<forall>c\<in>set (js ''false''). plain c"
  "\<forall>c\<in>set (js ''null''). plain c"
  by (simp_all add: js_def plain_def)

lemma scan_tokenize:
  "tokenize s = Some ts \<Longrightarrow>
     foldl scan_step (outside_state stk) s = outside_state (foldl token_stack stk ts)"
proof (induction s arbitrary: ts stk rule: tokenize.induct)
  case 1
  then show ?case by simp
next
  case (2 c cs)
  note prem = "2.prems"
  consider (ws) "is_json_whitespace c"
    | (lbrace) "\<not> is_json_whitespace c" "c = LBRACE"
    | (rbrace) "\<not> is_json_whitespace c" "c \<noteq> LBRACE" "c = RBRACE"
    | (lbracket) "\<not> is_json_whitespace c" "c \<noteq> LBRACE" "c \<noteq> RBRACE" "c = LBRACKET"
    | (rbracket) "\<not> is_json_whitespace c" "c \<noteq> LBRACE" "c \<noteq> RBRACE" "c \<noteq> LBRACKET"
        "c = RBRACKET"
    | (colon) "\<not> is_json_whitespace c" "c \<noteq> LBRACE" "c \<noteq> RBRACE" "c \<noteq> LBRACKET"
        "c \<noteq> RBRACKET" "c = COLON"
    | (comma) "\<not> is_json_whitespace c" "c \<noteq> LBRACE" "c \<noteq> RBRACE" "c \<noteq> LBRACKET"
        "c \<noteq> RBRACKET" "c \<noteq> COLON" "c = COMMA"
    | (quote) "\<not> is_json_whitespace c" "c \<noteq> LBRACE" "c \<noteq> RBRACE" "c \<noteq> LBRACKET"
        "c \<noteq> RBRACKET" "c \<noteq> COLON" "c \<noteq> COMMA" "c = QUOTE"
    | (number) "\<not> is_json_whitespace c" "c \<noteq> LBRACE" "c \<noteq> RBRACE" "c \<noteq> LBRACKET"
        "c \<noteq> RBRACKET" "c \<noteq> COLON" "c \<noteq> COMMA" "c \<noteq> QUOTE" "c = MINUS \<or> is_digit c"
    | (other) "\<not> is_json_whitespace c" "c \<noteq> LBRACE" "c \<noteq> RBRACE" "c \<noteq> LBRACKET"
        "c \<noteq> RBRACKET" "c \<noteq> COLON" "c \<noteq> COMMA" "c \<noteq> QUOTE" "\<not> (c = MINUS \<or> is_digit c)"
    by blast
  then show ?case
  proof cases
    case ws
    then have t: "tokenize cs = Some ts" using prem by simp
    have p: "plain c" using ws by (auto simp: is_json_whitespace_def plain_def)
    show ?thesis
      using "2.IH"(1)[OF ws t, of stk] p by (simp add: scan_step_plain)
  next
    case lbrace
    then obtain ts' where t: "tokenize cs = Some ts'" "ts = TLBrace # ts'"
      using prem by auto
    show ?thesis
      using "2.IH"(2)[OF lbrace t(1), of "token_stack stk TLBrace"] t(2) lbrace
      by (simp add: scan_step_outside_token)
  next
    case rbrace
    then obtain ts' where t: "tokenize cs = Some ts'" "ts = TRBrace # ts'"
      using prem by auto
    show ?thesis
      using "2.IH"(3)[OF rbrace t(1), of "token_stack stk TRBrace"] t(2) rbrace
      by (simp add: scan_step_outside_token)
  next
    case lbracket
    then obtain ts' where t: "tokenize cs = Some ts'" "ts = TLBracket # ts'"
      using prem by auto
    show ?thesis
      using "2.IH"(4)[OF lbracket t(1), of "token_stack stk TLBracket"] t(2) lbracket
      by (simp add: scan_step_outside_token)
  next
    case rbracket
    then obtain ts' where t: "tokenize cs = Some ts'" "ts = TRBracket # ts'"
      using prem by auto
    show ?thesis
      using "2.IH"(5)[OF rbracket t(1), of "token_stack stk TRBracket"] t(2) rbracket
      by (simp add: scan_step_outside_token)
  next
    case colon
    then obtain ts' where t: "tokenize cs = Some ts'" "ts = TColon # ts'"
      using prem by auto
    have p: "plain c" using colon by (simp add: plain_def)
    show ?thesis
      using "2.IH"(6)[OF colon t(1), of stk] t(2) p by (simp add: scan_step_plain)
  next
    case comma
    then obtain ts' where t: "tokenize cs = Some ts'" "ts = TComma # ts'"
      using prem by auto
    have p: "plain c" using comma by (simp add: plain_def)
    show ?thesis
      using "2.IH"(7)[OF comma t(1), of stk] t(2) p by (simp add: scan_step_plain)
  next
    case quote
    then obtain v rest ts' where l: "lex_string [] cs = Some (v, rest)"
      and t: "tokenize rest = Some ts'" "ts = TString v # ts'"
      using prem by (auto split: option.splits)
    have "foldl scan_step (outside_state stk) rest = outside_state (foldl token_stack stk ts')"
      using "2.IH"(8)[OF quote l refl t(1)] by simp
    then show ?thesis
      using quote(8) t(2) scan_lex_string[OF l, of stk] by (simp add: scan_step_quote)
  next
    case number
    then obtain m e rest ts' where l: "lex_number (c # cs) = Some (m, e, rest)"
      and t: "tokenize rest = Some ts'" "ts = TNumber m e # ts'"
      using prem by (auto split: option.splits)
    have "foldl scan_step (outside_state stk) rest = outside_state (foldl token_stack stk ts')"
      using "2.IH"(9)[OF number l refl refl t(1)] by simp
    then show ?thesis
      using t(2) scan_skips_plain[OF lex_number_skips[OF l], of stk] by simp
  next
    case other
    consider (tr) "startsWith (c # cs) (js ''true'')"
      | (fa) "\<not> startsWith (c # cs) (js ''true'')" "startsWith (c # cs) (js ''false'')"
      | (nu) "\<not> startsWith (c # cs) (js ''true'')" "\<not> startsWith (c # cs) (js ''false'')"
          "startsWith (c # cs) (js ''null'')"
      | (no) "\<not> startsWith (c # cs) (js ''true'')" "\<not> startsWith (c # cs) (js ''false'')"
          "\<not> startsWith (c # cs) (js ''null'')"
      by blast
    then show ?thesis
    proof cases
      case tr
      then obtain ts' where t: "tokenize (drop 3 cs) = Some ts'" "ts = TTrue # ts'"
        using prem other by auto
      have "skips_plain (c # cs) (drop 3 cs)"
        using startsWith_skips[OF tr literal_plain(1)] by (simp add: js_def eval_nat_numeral)
      then show ?thesis
        using "2.IH"(10)[OF other tr t(1), of stk] t(2) scan_skips_plain[of "c # cs" "drop 3 cs" stk]
        by simp
    next
      case fa
      then obtain ts' where t: "tokenize (drop 4 cs) = Some ts'" "ts = TFalse # ts'"
        using prem other by auto
      have "skips_plain (c # cs) (drop 4 cs)"
        using startsWith_skips[OF fa(2) literal_plain(2)] by (simp add: js_def eval_nat_numeral)
      then show ?thesis
        using "2.IH"(11)[OF other fa t(1), of stk] t(2) scan_skips_plain[of "c # cs" "drop 4 cs" stk]
        by simp
    next
      case nu
      then obtain ts' where t: "tokenize (drop 3 cs) = Some ts'" "ts = TNull # ts'"
        using prem other by auto
      have "skips_plain (c # cs) (drop 3 cs)"
        using startsWith_skips[OF nu(3) literal_plain(3)] by (simp add: js_def eval_nat_numeral)
      then show ?thesis
        using "2.IH"(12)[OF other nu t(1), of stk] t(2) scan_skips_plain[of "c # cs" "drop 3 cs" stk]
        by simp
    next
      case no
      then show ?thesis using prem other by simp
    qed
  qed
qed

lemma push_value_stack:
  "push_value v st = Some (m', st') \<Longrightarrow>
     frames_stack st' = frames_stack st \<and> (\<forall>w. m' = Done w \<longrightarrow> st' = [])"
  by (induction v st rule: push_value.induct) auto

lemma begin_value_stack:
  "begin_value t st = Some (m', st') \<Longrightarrow>
     token_stack (frames_stack st) t = frames_stack st' \<and> (\<forall>w. m' = Done w \<longrightarrow> st' = [])"
  by (cases t) (auto dest: push_value_stack)

lemma close_array_stack:
  "close_array st = Some (m', st') \<Longrightarrow>
     token_stack (frames_stack st) TRBracket = frames_stack st' \<and> (\<forall>w. m' = Done w \<longrightarrow> st' = [])"
  by (induction st rule: close_array.induct) (auto dest: push_value_stack)

lemma close_object_stack:
  "close_object st = Some (m', st') \<Longrightarrow>
     token_stack (frames_stack st) TRBrace = frames_stack st' \<and> (\<forall>w. m' = Done w \<longrightarrow> st' = [])"
  by (induction st rule: close_object.induct) (auto dest: push_value_stack)

lemma parse_step_stack:
  assumes "parse_step (m, st) t = Some (m', st')"
  shows "token_stack (frames_stack st) t = frames_stack st' \<and> (\<forall>w. m' = Done w \<longrightarrow> st' = [])"
proof (cases m)
  case ExpectValue
  then show ?thesis using assms begin_value_stack by simp
next
  case ExpectValueOrClose
  then show ?thesis using assms begin_value_stack close_array_stack
    by (auto split: if_splits)
next
  case ExpectKeyOrClose
  then show ?thesis using assms close_object_stack
    by (cases t) auto
next
  case ExpectKey
  then show ?thesis using assms by (cases t) auto
next
  case ExpectColon
  then show ?thesis using assms by (auto split: if_splits)
next
  case AfterValue
  then show ?thesis using assms close_array_stack close_object_stack
    by (cases t) (auto split: list.splits frame.splits)
next
  case (Done w)
  then show ?thesis using assms by simp
qed

lemma parse_tokens_stack:
  "parse_tokens (m, st) ts = Some (m', st') \<Longrightarrow> (\<forall>w. m = Done w \<longrightarrow> st = []) \<Longrightarrow>
     foldl token_stack (frames_stack st) ts = frames_stack st' \<and> (\<forall>w. m' = Done w \<longrightarrow> st' = [])"
proof (induction ts arbitrary: m st)
  case Nil
  then show ?case by simp
next
  case (Cons t ts)
  from Cons.prems(1) obtain m1 st1 where
    s: "parse_step (m, st) t = Some (m1, st1)" and r: "parse_tokens (m1, st1) ts = Some (m', st')"
    by (auto split: option.splits)
  from parse_step_stack[OF s] have
    a: "token_stack (frames_stack st) t = frames_stack st1" and b: "\<forall>w. m1 = Done w \<longrightarrow> st1 = []"
    by simp_all
  from Cons.IH[OF r b] a show ?case by simp
qed

lemma scan_parsed:
  assumes "JSON_parse T = Some v"
  shows "scan T = scan_init"
proof -
  from assms obtain ts st where t: "tokenize T = Some ts"
    and p: "parse_tokens (ExpectValue, []) ts = Some (Done v, st)"
    by (auto simp: JSON_parse_def split: option.splits mode.splits prod.splits)
  from parse_tokens_stack[OF p] have "foldl token_stack [] ts = []"
    by simp
  with scan_tokenize[OF t, of "[]"] show ?thesis
    by (simp add: scan_def scan_init_def outside_state_def)
qed

text \<open>
  Claim C2.  A text that \<open>JSON.parse\<close> accepts ends outside string literals and has no
  unmatched opener; the repair returns it unchanged, so the repaired text parses to the
  same value; and \<open>cleanJsonString\<close> returns it unchanged when the normalizer leaves it as
  it is.  More generally, the repair returns unchanged every text that ends outside
  string literals and has no unmatched opener.
\<close>

theorem repair_identity_on_valid_json:
  assumes "JSON_parse T = Some v"
  shows "outside_string_at T (length T) \<and> unmatched_openers T = []
       \<and> fixTruncatedJson T = T
       \<and> JSON_parse (fixTruncatedJson T) = Some v
       \<and> (remove_trailing_commas (strip_fences (trim T)) = T \<longrightarrow> cleanJsonString T = T)
       \<and> (outside_string_at U (length U) \<and> unmatched_openers U = []
            \<longrightarrow> fixTruncatedJson U = U)"
proof -
  have s: "scan T = scan_init" using assms by (rule scan_parsed)
  have o: "outside_string_at T (length T)"
    using scan_whole(1)[of T] by (simp add: s scan_init_def)
  have u: "unmatched_openers T = []"
    using scan_whole(2)[of T] by (simp add: s scan_init_def)
  have f: "fixTruncatedJson T = T"
    by (simp add: fixTruncatedJson_def Let_def s scan_init_def close_all_eq)
  have c: "remove_trailing_commas (strip_fences (trim T)) = T \<longrightarrow> cleanJsonString T = T"
    using assms by (simp add: cleanJsonString_def Let_def)
  have g: "outside_string_at U (length U) \<and> unmatched_openers U = [] \<longrightarrow> fixTruncatedJson U = U"
    by (simp add: fixTruncatedJson_def Let_def close_all_eq scan_whole)
  from o u f c g assms show ?thesis by simp
qed

theorem repair_identity_on_valid_json_witness:
  \<open>JSON_parse (js ''{"draws": [{"game": "Lotto", "a}": [1, 2]}]}'')
     = Some (JObject [(js ''draws'', JArray [JObject [(js ''game'', JString (js ''Lotto'')),
          (js ''a}'', JArray [JNumber 1 0, JNumber 2 0])]])])
   \<and> fixTruncatedJson (js ''{"draws": [{"game": "Lotto", "a}": [1, 2]}]}'')
       = js ''{"draws": [{"game": "Lotto", "a}": [1, 2]}]}''\<close>
proof -
  have p: \<open>JSON_parse (js ''{"draws": [{"game": "Lotto", "a}": [1, 2]}]}'')
     = Some (JObject [(js ''draws'', JArray [JObject [(js ''game'', JString (js ''Lotto'')),
          (js ''a}'', JArray [JNumber 1 0, JNumber 2 0])]])])\<close>
    by (simp add: json_eval)
  show ?thesis
    using p repair_identity_on_valid_json[OF p] by simp
qed

end
